theory Spec2Isabelle
  imports Complex_Main "HOL-Library.Word"
begin

section \<open>Robust statistics of \<^verbatim>\<open>bench.cpp\<close>\<close>

text \<open>
  The templates \<^verbatim>\<open>percentile_of_sorted\<close>, \<^verbatim>\<open>winsorize\<close> and \<^verbatim>\<open>Summary\<close> are
  embedded at the sample type \<open>real\<close>: sums, differences and products are exact, so the
  rounding of \<^verbatim>\<open>double\<close> is not part of the model. The one division whose divisor
  can be zero (the last member of \<^verbatim>\<open>Summary\<close>) keeps the IEEE 754 outcome of a
  division by zero as a value of its own. A failed \<^verbatim>\<open>assert\<close> and a read through the
  end iterator are results of the model, not unspecified values.
\<close>

datatype error = AssertionFailed | UndefinedBehaviour

definition percentile_of_sorted :: "real list \<Rightarrow> real \<Rightarrow> error + real" where
  "percentile_of_sorted sorted_samples pct =
     (if sorted_samples = [] then Inl AssertionFailed
      else if length sorted_samples = 1 then Inr (sorted_samples ! 0)
      else if \<not> 0 \<le> pct then Inl AssertionFailed
      else if \<not> pct \<le> 100 then Inl AssertionFailed
      else if pct = 100 then Inr (sorted_samples ! (length sorted_samples - 1))
      else
        let len = length sorted_samples - 1;
            rank = (pct / 100) * real len;
            lrank = \<lfloor>rank\<rfloor>;
            d = rank - of_int lrank;
            n = nat lrank;
            lo = sorted_samples ! n;
            hi = sorted_samples ! (n + 1)
        in Inr (lo + (hi - lo) * d))"

text \<open>The body of the loop of \<^verbatim>\<open>winsorize\<close>: the test against \<open>hi\<close> comes first.\<close>

definition clamp_sample :: "real \<Rightarrow> real \<Rightarrow> real \<Rightarrow> real" where
  "clamp_sample lo hi samp = (if samp > hi then hi else if samp < lo then lo else samp)"

text \<open>
  \<^verbatim>\<open>winsorize\<close> changes its argument in place; the model returns the vector the
  argument holds afterwards.
\<close>

definition winsorize :: "real list \<Rightarrow> real \<Rightarrow> error + real list" where
  "winsorize samples pct =
     (let sorted = sort samples in
      case percentile_of_sorted sorted pct of
        Inl e \<Rightarrow> Inl e
      | Inr lo \<Rightarrow>
          (case percentile_of_sorted sorted (100 - pct) of
             Inl e \<Rightarrow> Inl e
           | Inr hi \<Rightarrow> Inr (map (clamp_sample lo hi) sorted)))"

text \<open>
  The value of \<^verbatim>\<open>T(100) * median_abs_dev / median\<close>. A non-zero divisor gives the
  quotient; a zero divisor gives an infinity with the sign of the dividend, or NaN for
  \<open>0 / 0\<close> (the divisor taken as positive zero).
\<close>

datatype quotient = Finite real | PosInf | NegInf | NaN

definition fdiv :: "real \<Rightarrow> real \<Rightarrow> quotient" where
  "fdiv a b =
     (if b \<noteq> 0 then Finite (a / b)
      else if 0 < a then PosInf
      else if a < 0 then NegInf
      else NaN)"

text \<open>The comparisons \<open>q < c\<close> and \<open>q == c\<close> of a quotient with a finite number.\<close>

fun quotient_less :: "quotient \<Rightarrow> real \<Rightarrow> bool" where
  "quotient_less (Finite x) c = (x < c)"
| "quotient_less NegInf c = True"
| "quotient_less PosInf c = False"
| "quotient_less NaN c = False"

fun quotient_eq :: "quotient \<Rightarrow> real \<Rightarrow> bool" where
  "quotient_eq (Finite x) c = (x = c)"
| "quotient_eq NegInf c = False"
| "quotient_eq PosInf c = False"
| "quotient_eq NaN c = False"

record summary =
  max_v :: real
  min_v :: real
  median :: real
  median_abs_dev :: real
  median_abs_dev_pct :: quotient

text \<open>The default constructor \<^verbatim>\<open>Summary()\<close>.\<close>

definition Summary0 :: summary where
  "Summary0 = \<lparr>max_v = 0, min_v = 0, median = 0, median_abs_dev = 0,
     median_abs_dev_pct = Finite 0\<rparr>"

fun calc_max :: "real list \<Rightarrow> error + real" where
  "calc_max [] = Inl UndefinedBehaviour"
| "calc_max (x # xs) = Inr (fold max xs x)"

fun calc_min :: "real list \<Rightarrow> error + real" where
  "calc_min [] = Inl UndefinedBehaviour"
| "calc_min (x # xs) = Inr (fold min xs x)"

definition calc_percentile :: "real list \<Rightarrow> real \<Rightarrow> error + real" where
  "calc_percentile samples pct = (let tmp = sort samples in percentile_of_sorted tmp pct)"

definition calc_median :: "real list \<Rightarrow> error + real" where
  "calc_median samples = calc_percentile samples 50"

definition calc_median_abs_dev :: "real list \<Rightarrow> error + real" where
  "calc_median_abs_dev samples =
     (case calc_median samples of
        Inl e \<Rightarrow> Inl e
      | Inr med \<Rightarrow>
          (let abs_devs = map (\<lambda>v. med - v) samples in
           case calc_median abs_devs of
             Inl e \<Rightarrow> Inl e
           | Inr m \<Rightarrow> Inr (m * 14826 / 10000)))"

text \<open>The constructor \<^verbatim>\<open>Summary(samples)\<close>, its members in the order of declaration.\<close>

definition Summary :: "real list \<Rightarrow> error + summary" where
  "Summary samples =
     (case calc_max samples of
        Inl e \<Rightarrow> Inl e
      | Inr mx \<Rightarrow>
     (case calc_min samples of
        Inl e \<Rightarrow> Inl e
      | Inr mn \<Rightarrow>
     (case calc_median samples of
        Inl e \<Rightarrow> Inl e
      | Inr med \<Rightarrow>
     (case calc_median_abs_dev samples of
        Inl e \<Rightarrow> Inl e
      | Inr mad \<Rightarrow>
          Inr \<lparr>max_v = mx, min_v = mn, median = med, median_abs_dev = mad,
               median_abs_dev_pct = fdiv (100 * mad) med\<rparr>))))"

section \<open>The class \<^verbatim>\<open>Bencher\<close>\<close>

text \<open>
  The three members are 64-bit; \<^verbatim>\<open>duration_\<close> holds the count of a
  \<^verbatim>\<open>std::chrono::nanoseconds\<close>, read as signed by \<open>sint\<close>.
\<close>

record bencher =
  iterations_f :: "64 word"
  duration_f :: "64 word"
  bytes_f :: "64 word"

definition Bencher0 :: bencher where
  "Bencher0 = \<lparr>iterations_f = 0, duration_f = 0, bytes_f = 0\<rparr>"

definition bytes :: "bencher \<Rightarrow> 64 word" where
  "bytes b = bytes_f b"

text \<open>
  \<^verbatim>\<open>duration_ / iterations_\<close> divides a signed count by a \<^verbatim>\<open>uint64_t\<close>: the
  common type is unsigned, which is the division of \<open>64 word\<close>.
\<close>

definition ns_per_iter :: "bencher \<Rightarrow> 64 word" where
  "ns_per_iter b =
     (if iterations_f b \<noteq> 0 then duration_f b div iterations_f b else 0)"

text \<open>
  What a run touches: the \<^verbatim>\<open>Bencher\<close> object, whatever else the callable can reach
  (\<open>env\<close>), and the number of clock readings taken so far. The clock itself is a
  sequence of readings in nanoseconds, the \<open>k\<close>-th call of \<^verbatim>\<open>now()\<close> returning the
  \<open>k\<close>-th one.
\<close>

record 'u world =
  this :: bencher
  env :: 'u
  reads :: nat

type_synonym clock = "nat \<Rightarrow> 64 word"

type_synonym 'u callable = "bencher \<times> 'u \<Rightarrow> bencher \<times> 'u"

definition now :: "clock \<Rightarrow> 'u world \<Rightarrow> 64 word \<times> 'u world" where
  "now clk w = (clk (reads w), w\<lparr>reads := Suc (reads w)\<rparr>)"

text \<open>The loop \<^verbatim>\<open>for (uint64_t i = 0; i < iterations; ++i) func(*this);\<close>\<close>

function call_loop :: "64 word \<Rightarrow> 64 word \<Rightarrow> 'u callable \<Rightarrow> bencher \<times> 'u \<Rightarrow> bencher \<times> 'u" where
  "call_loop i iterations func s =
     (if i < iterations then call_loop (i + 1) iterations func (func s) else s)"
  by pat_completeness auto
termination
proof (relation "measure (\<lambda>(i, iterations, func, s). unat iterations - unat i)")
  show "wf (measure (\<lambda>(i, iterations, func, s). unat iterations - unat i))"
    by simp
next
  fix i iterations :: "64 word" and func :: "'u callable" and s :: "bencher \<times> 'u"
  assume "i < iterations"
  then have "unat iterations - unat (i + 1) < unat iterations - unat i"
    by unat_arith
  then show "((i + 1, iterations, func, func s), (i, iterations, func, s))
      \<in> measure (\<lambda>(i, iterations, func, s). unat iterations - unat i)"
    by simp
qed

declare call_loop.simps [simp del]

definition bench_n :: "clock \<Rightarrow> 64 word \<Rightarrow> 'u callable \<Rightarrow> 'u world \<Rightarrow> 'u world" where
  "bench_n clk iterations func w =
     (let w1 = w\<lparr>this := (this w)\<lparr>iterations_f := iterations, duration_f := 0\<rparr>\<rparr>;
          (loop_start, w2) = now clk w1;
          (b, u) = call_loop 0 iterations func (this w2, env w2);
          w3 = w2\<lparr>this := b, env := u\<rparr>;
          (t, w4) = now clk w3
      in w4\<lparr>this := (this w4)\<lparr>duration_f := t - loop_start\<rparr>\<rparr>)"

text \<open>
  The loop \<^verbatim>\<open>for (auto & p : samples) { bench_n(n, func); p = ns_per_iter().count(); }\<close>:
  one batch for each element of the vector, whose old value is overwritten.
\<close>

fun fill_samples ::
  "clock \<Rightarrow> 64 word \<Rightarrow> 'u callable \<Rightarrow> real list \<Rightarrow> 'u world \<Rightarrow> real list \<times> 'u world" where
  "fill_samples clk n func [] w = ([], w)"
| "fill_samples clk n func (p # ps) w =
     (let w1 = bench_n clk n func w;
          p1 = real_of_int (sint (ns_per_iter (this w1)));
          (ps1, w2) = fill_samples clk n func ps w1
      in (p1 # ps1, w2))"

text \<open>
  The two tests at the end of an iteration of the loop of \<^verbatim>\<open>auto_bench\<close>. Both
  \<^verbatim>\<open>return\<close> statements return \<open>summ5\<close>; the outcome records which one was taken,
  or the new value of \<^verbatim>\<open>total_run\<close> when the loop goes on.
\<close>

datatype outcome = ReturnConverged summary | ReturnBudget summary | Next "64 word"

definition converged :: "64 word \<Rightarrow> summary \<Rightarrow> summary \<Rightarrow> bool" where
  "converged loop_run summ summ5 =
     (sint loop_run > 100000000 \<and>
      quotient_less (median_abs_dev_pct summ) 1 \<and>
      median summ - median summ5 < median_abs_dev summ5)"

definition loop_exit :: "64 word \<Rightarrow> 64 word \<Rightarrow> summary \<Rightarrow> summary \<Rightarrow> outcome" where
  "loop_exit loop_run total_run summ summ5 =
     (if converged loop_run summ summ5 then ReturnConverged summ5
      else
        let total_run1 = total_run + loop_run in
        if sint total_run1 > 3000000000 then ReturnBudget summ5
        else Next total_run1)"

text \<open>One iteration of \<^verbatim>\<open>for (;;)\<close>, up to the two tests.\<close>

definition auto_bench_iter ::
  "clock \<Rightarrow> 'u callable \<Rightarrow> 64 word \<Rightarrow> 64 word \<Rightarrow> real list \<Rightarrow> 'u world
    \<Rightarrow> (error + outcome \<times> real list) \<times> 'u world" where
  "auto_bench_iter clk func n total_run samples w =
     (let (loop_start, w1) = now clk w;
          (samples1, w2) = fill_samples clk n func samples w1
      in
      case winsorize samples1 5 of
        Inl e \<Rightarrow> (Inl e, w2)
      | Inr samples2 \<Rightarrow>
     (case Summary samples2 of
        Inl e \<Rightarrow> (Inl e, w2)
      | Inr summ \<Rightarrow>
     (let (samples3, w3) = fill_samples clk (n * 5) func samples2 w2 in
      case winsorize samples3 5 of
        Inl e \<Rightarrow> (Inl e, w3)
      | Inr samples4 \<Rightarrow>
     (case Summary samples4 of
        Inl e \<Rightarrow> (Inl e, w3)
      | Inr summ5 \<Rightarrow>
     (let (t, w4) = now clk w3;
          loop_run = t - loop_start
      in (Inr (loop_exit loop_run total_run summ summ5, samples4), w4))))))"

text \<open>
  The loop itself. It has no bound of its own: it ends when one of the two tests
  succeeds, which depends on the clock, so a run that never returns is the value
  \<open>None\<close>.
\<close>

partial_function (option) auto_bench_loop ::
  "clock \<Rightarrow> 'u callable \<Rightarrow> 64 word \<Rightarrow> 64 word \<Rightarrow> real list \<Rightarrow> 'u world
    \<Rightarrow> ((error + summary) \<times> 'u world) option" where
  "auto_bench_loop clk func n total_run samples w =
     (case auto_bench_iter clk func n total_run samples w of
        (Inl e, w1) \<Rightarrow> Some (Inl e, w1)
      | (Inr (ReturnConverged s, samples1), w1) \<Rightarrow> Some (Inr s, w1)
      | (Inr (ReturnBudget s, samples1), w1) \<Rightarrow> Some (Inr s, w1)
      | (Inr (Next total_run1, samples1), w1) \<Rightarrow>
          auto_bench_loop clk func (n * 2) total_run1 samples1 w1)"

text \<open>
  \<^verbatim>\<open>auto_bench\<close>. The local \<^verbatim>\<open>std::chrono::nanoseconds total_run;\<close> is declared
  without an initialiser, so the value it starts with is not fixed by the program: it
  is the parameter \<open>total_run0\<close>.
\<close>

definition auto_bench ::
  "clock \<Rightarrow> 64 word \<Rightarrow> 'u callable \<Rightarrow> 'u world \<Rightarrow> ((error + summary) \<times> 'u world) option" where
  "auto_bench clk total_run0 func w =
     (let w1 = bench_n clk 1 func w;
          n = (if ns_per_iter (this w1) = 0 then 1000000
               else 1000000 div max (ns_per_iter (this w1)) 1);
          n1 = (if n = 0 then 1 else n)
      in auto_bench_loop clk func n1 total_run0 (replicate 50 0) w1)"

section \<open>The function \<^verbatim>\<open>benchmark\<close>\<close>

record bench_samples =
  ns_iter_summ :: summary
  mb_s :: "64 word"

text \<open>
  The conversion of a \<^verbatim>\<open>double\<close> to \<^verbatim>\<open>uint64_t\<close> drops the fraction; it is
  defined only when the result fits.
\<close>

definition double_to_uint64 :: "real \<Rightarrow> 64 word option" where
  "double_to_uint64 x =
     (if - 1 < x \<and> x < 2 ^ 64 then Some (word_of_int (if 0 \<le> x then \<lfloor>x\<rfloor> else \<lceil>x\<rceil>))
      else None)"

text \<open>The three statements of \<^verbatim>\<open>benchmark\<close> after the call of \<^verbatim>\<open>auto_bench\<close>.\<close>

definition benchmark_mb_s :: "summary \<Rightarrow> bencher \<Rightarrow> error + 64 word" where
  "benchmark_mb_s summ b =
     (case double_to_uint64 (median summ) of
        None \<Rightarrow> Inl UndefinedBehaviour
      | Some m \<Rightarrow>
          (let ns_iter = max m 1;
               iter_s = 1000000000 div ns_iter
           in Inr ((bytes b * iter_s) div 1000000)))"

definition benchmark ::
  "clock \<Rightarrow> 64 word \<Rightarrow> 'u callable \<Rightarrow> 'u \<Rightarrow> ((error + bench_samples) \<times> 'u) option" where
  "benchmark clk total_run0 f u =
     (case auto_bench clk total_run0 f \<lparr>this = Bencher0, env = u, reads = 0\<rparr> of
        None \<Rightarrow> None
      | Some (Inl e, w) \<Rightarrow> Some (Inl e, env w)
      | Some (Inr summ, w) \<Rightarrow>
          (case benchmark_mb_s summ (this w) of
             Inl e \<Rightarrow> Some (Inl e, env w)
           | Inr m \<Rightarrow> Some (Inr \<lparr>ns_iter_summ = summ, mb_s = m\<rparr>, env w)))"

text \<open>
  The throughput as the specification words it, over the reals:
  \<open>ns_iter = max(median, 1)\<close>, \<open>iters_per_sec = 1e9 / ns_iter\<close> and
  \<open>throughput = (bytes_per_iter * iters_per_sec) / 1e6\<close>. It follows the words of the
  specification, not the code, and is compared with \<open>benchmark_mb_s\<close> below.
\<close>

definition spec_throughput :: "real \<Rightarrow> real \<Rightarrow> real" where
  "spec_throughput median_ns bytes_per_iter =
     (let ns_iter = max median_ns 1;
          iters_per_sec = 1000000000 / ns_iter
      in (bytes_per_iter * iters_per_sec) / 1000000)"

section \<open>Percentiles\<close>

lemma percentile_single: "percentile_of_sorted [x] pct = Inr x"
  by (simp add: percentile_of_sorted_def)

lemma percentile_hundred:
  "xs \<noteq> [] \<Longrightarrow> percentile_of_sorted xs 100 = Inr (last xs)"
  by (cases "length xs = 1")
     (auto simp: percentile_of_sorted_def last_conv_nth)

lemma nat_ceiling_floor:
  fixes r :: real
  assumes "0 \<le> r"
  shows "nat \<lceil>r\<rceil> = (if r = of_int \<lfloor>r\<rfloor> then nat \<lfloor>r\<rfloor> else nat \<lfloor>r\<rfloor> + 1)"
proof (cases "r = of_int \<lfloor>r\<rfloor>")
  case True
  then have "\<lceil>r\<rceil> = \<lfloor>r\<rfloor>" by (metis ceiling_of_int)
  with True show ?thesis by simp
next
  case False
  then have "\<lceil>r\<rceil> = \<lfloor>r\<rfloor> + 1"
    by (metis ceiling_altdef)
  moreover have "0 \<le> \<lfloor>r\<rfloor>" using assms by simp
  ultimately show ?thesis using False by (simp add: nat_add_distrib)
qed

lemma percentile_formula:
  assumes "xs \<noteq> []" "0 \<le> pct" "pct \<le> 100"
  shows "percentile_of_sorted xs pct =
    (let rank = pct / 100 * real (length xs - 1) in
     Inr (xs ! nat \<lfloor>rank\<rfloor> + (xs ! nat \<lceil>rank\<rceil> - xs ! nat \<lfloor>rank\<rfloor>) * (rank - of_int \<lfloor>rank\<rfloor>)))"
proof -
  define rank where "rank = pct / 100 * real (length xs - 1)"
  have r0: "0 \<le> rank" using assms by (simp add: rank_def)
  show ?thesis
  proof (cases "length xs = 1")
    case True
    then show ?thesis using assms by (simp add: percentile_of_sorted_def)
  next
    case len: False
    show ?thesis
    proof (cases "pct = 100")
      case True
      then show ?thesis using assms len by (simp add: percentile_of_sorted_def)
    next
      case False
      have "percentile_of_sorted xs pct =
        Inr (xs ! nat \<lfloor>rank\<rfloor> + (xs ! (nat \<lfloor>rank\<rfloor> + 1) - xs ! nat \<lfloor>rank\<rfloor>) * (rank - of_int \<lfloor>rank\<rfloor>))"
        using assms len False by (simp add: percentile_of_sorted_def Let_def rank_def)
      also have "\<dots> = Inr (xs ! nat \<lfloor>rank\<rfloor> + (xs ! nat \<lceil>rank\<rceil> - xs ! nat \<lfloor>rank\<rfloor>) * (rank - of_int \<lfloor>rank\<rfloor>))"
        using nat_ceiling_floor[OF r0] by (cases "rank = of_int \<lfloor>rank\<rfloor>") simp_all
      finally show ?thesis by (simp add: Let_def rank_def)
    qed
  qed
qed

lemma interp_between:
  fixes a b d :: real
  assumes "a \<le> b" "0 \<le> d" "d \<le> 1"
  shows "a \<le> a + (b - a) * d" and "a + (b - a) * d \<le> b"
proof -
  have "0 \<le> (b - a) * d" using assms by simp
  then show "a \<le> a + (b - a) * d" by simp
  have "(b - a) * d \<le> (b - a) * 1"
    using assms by (intro mult_left_mono) simp_all
  then show "a + (b - a) * d \<le> b" by simp
qed

lemma rank_floor_bounds:
  fixes pct :: real
  assumes "2 \<le> length xs" "0 \<le> pct" "pct < 100"
    and rank_def: "rank = pct / 100 * real (length xs - 1)"
  shows "0 \<le> rank" and "nat \<lfloor>rank\<rfloor> + 1 < length xs"
    and "0 \<le> rank - of_int \<lfloor>rank\<rfloor>" and "rank - of_int \<lfloor>rank\<rfloor> < 1"
    and "real (nat \<lfloor>rank\<rfloor>) = of_int \<lfloor>rank\<rfloor>"
proof -
  have L: "0 < real (length xs - 1)" using assms by simp
  show r0: "0 \<le> rank" using assms by (simp add: rank_def)
  have "pct / 100 < 1" using assms by simp
  then have "rank < 1 * real (length xs - 1)"
    unfolding rank_def using L by (intro mult_strict_right_mono) simp_all
  then have "rank < real (length xs - 1)" by simp
  then have "\<lfloor>rank\<rfloor> < int (length xs - 1)" by (simp add: floor_less_iff)
  moreover have "0 \<le> \<lfloor>rank\<rfloor>" using r0 by simp
  ultimately show "nat \<lfloor>rank\<rfloor> + 1 < length xs" using assms(1) by linarith
  show "0 \<le> rank - of_int \<lfloor>rank\<rfloor>" by simp
  show "rank - of_int \<lfloor>rank\<rfloor> < 1" by linarith
  show "real (nat \<lfloor>rank\<rfloor>) = of_int \<lfloor>rank\<rfloor>" using \<open>0 \<le> \<lfloor>rank\<rfloor>\<close> by simp
qed

lemma percentile_interior:
  assumes "2 \<le> length xs" "0 \<le> pct" "pct < 100"
  shows "percentile_of_sorted xs pct =
     Inr (xs ! nat \<lfloor>pct / 100 * real (length xs - 1)\<rfloor>
          + (xs ! (nat \<lfloor>pct / 100 * real (length xs - 1)\<rfloor> + 1)
             - xs ! nat \<lfloor>pct / 100 * real (length xs - 1)\<rfloor>)
            * (pct / 100 * real (length xs - 1)
               - of_int \<lfloor>pct / 100 * real (length xs - 1)\<rfloor>))"
  using assms by (auto simp: percentile_of_sorted_def Let_def)

lemma percentile_mono_interior:
  assumes srt: "sorted xs" and len: "2 \<le> length xs"
    and p0: "0 \<le> p" and pq: "p \<le> q" and q100: "q < 100"
    and ep: "percentile_of_sorted xs p = Inr a"
    and eq: "percentile_of_sorted xs q = Inr b"
  shows "a \<le> b"
proof -
  define L where "L = real (length xs - 1)"
  define rp where "rp = p / 100 * L"
  define rq where "rq = q / 100 * L"
  define np where "np = nat \<lfloor>rp\<rfloor>"
  define nq where "nq = nat \<lfloor>rq\<rfloor>"
  define dp where "dp = rp - of_int \<lfloor>rp\<rfloor>"
  define dq where "dq = rq - of_int \<lfloor>rq\<rfloor>"
  have p100: "p < 100" and q0: "0 \<le> q" using pq q100 p0 by simp_all
  have a: "a = xs ! np + (xs ! (np + 1) - xs ! np) * dp"
    using percentile_interior[OF len p0 p100] ep
    by (simp add: np_def dp_def rp_def L_def)
  have b: "b = xs ! nq + (xs ! (nq + 1) - xs ! nq) * dq"
    using percentile_interior[OF len q0 q100] eq
    by (simp add: nq_def dq_def rq_def L_def)
  note bp = rank_floor_bounds[OF len p0 p100 rp_def[unfolded L_def], folded np_def dp_def]
  note bq = rank_floor_bounds[OF len q0 q100 rq_def[unfolded L_def], folded nq_def dq_def]
  have "0 \<le> L" by (simp add: L_def)
  then have rpq: "rp \<le> rq" using pq by (simp add: rp_def rq_def mult_right_mono)
  then have "\<lfloor>rp\<rfloor> \<le> \<lfloor>rq\<rfloor>" by (rule floor_mono)
  then have npq: "np \<le> nq" by (simp add: np_def nq_def nat_mono)
  have sp: "xs ! np \<le> xs ! (np + 1)"
    using srt bp(2) by (intro sorted_nth_mono) simp_all
  have sq: "xs ! nq \<le> xs ! (nq + 1)"
    using srt bq(2) by (intro sorted_nth_mono) simp_all
  have rp_eq: "rp = real np + dp" using bp(5) by (simp add: dp_def)
  have rq_eq: "rq = real nq + dq" using bq(5) by (simp add: dq_def)
  show ?thesis
  proof (cases "np = nq")
    case True
    then have "dp \<le> dq" using rpq rp_eq rq_eq by simp
    then have "(xs ! (np + 1) - xs ! np) * dp \<le> (xs ! (np + 1) - xs ! np) * dq"
      using sp by (intro mult_left_mono) simp_all
    then show ?thesis using a b True by simp
  next
    case False
    then have "np + 1 \<le> nq" using npq by simp
    then have mid: "xs ! (np + 1) \<le> xs ! nq"
      using srt bq(2) by (intro sorted_nth_mono) simp_all
    have "a \<le> xs ! (np + 1)"
      unfolding a using interp_between(2)[OF sp bp(3)] bp(4) by simp
    moreover have "xs ! nq \<le> b"
      unfolding b using interp_between(1)[OF sq bq(3)] bq(4) by simp
    ultimately show ?thesis using mid by linarith
  qed
qed

lemma percentile_defined:
  assumes "xs \<noteq> []" "0 \<le> pct" "pct \<le> 100"
  shows "\<exists>a. percentile_of_sorted xs pct = Inr a"
  using assms by (simp add: percentile_of_sorted_def Let_def)

lemma percentile_range:
  assumes srt: "sorted xs" and ne: "xs \<noteq> []" and p0: "0 \<le> pct" and p100: "pct \<le> 100"
    and ep: "percentile_of_sorted xs pct = Inr a"
  shows "hd xs \<le> a" and "a \<le> last xs"
proof -
  have hd: "hd xs = xs ! 0" and lst: "last xs = xs ! (length xs - 1)"
    using ne by (simp_all add: hd_conv_nth last_conv_nth)
  have "hd xs \<le> a \<and> a \<le> last xs"
  proof (cases "length xs = 1")
    case True
    then show ?thesis using ep ne hd lst by (simp add: percentile_of_sorted_def)
  next
    case n1: False
    moreover have "length xs \<noteq> 0" using ne by simp
    ultimately have len: "2 \<le> length xs" by linarith
    show ?thesis
    proof (cases "pct = 100")
      case True
      then have "a = last xs" using ep ne n1 lst by (simp add: percentile_of_sorted_def)
      moreover have "xs ! 0 \<le> xs ! (length xs - 1)"
        using srt len by (intro sorted_nth_mono) simp_all
      ultimately show ?thesis using hd lst by simp
    next
      case False
      then have lt: "pct < 100" using p100 by simp
      define rank where "rank = pct / 100 * real (length xs - 1)"
      define n where "n = nat \<lfloor>rank\<rfloor>"
      define d where "d = rank - of_int \<lfloor>rank\<rfloor>"
      note bs = rank_floor_bounds[OF len p0 lt rank_def, folded n_def d_def]
      have a: "a = xs ! n + (xs ! (n + 1) - xs ! n) * d"
        using percentile_interior[OF len p0 lt] ep by (simp add: n_def d_def rank_def)
      have s: "xs ! n \<le> xs ! (n + 1)"
        using srt bs(2) by (intro sorted_nth_mono) simp_all
      have "xs ! 0 \<le> xs ! n" using srt bs(2) by (intro sorted_nth_mono) simp_all
      moreover have "xs ! (n + 1) \<le> xs ! (length xs - 1)"
        using srt bs(2) by (intro sorted_nth_mono) simp_all
      moreover have "xs ! n \<le> a" "a \<le> xs ! (n + 1)"
        unfolding a using interp_between[OF s bs(3)] bs(4) by simp_all
      ultimately show ?thesis using hd lst by linarith
    qed
  qed
  then show "hd xs \<le> a" and "a \<le> last xs" by simp_all
qed

lemma percentile_mono:
  assumes srt: "sorted xs" and ne: "xs \<noteq> []"
    and p0: "0 \<le> p" and pq: "p \<le> q" and q100: "q \<le> 100"
    and ep: "percentile_of_sorted xs p = Inr a"
    and eq: "percentile_of_sorted xs q = Inr b"
  shows "a \<le> b"
proof (cases "length xs = 1")
  case True
  then show ?thesis using ep eq ne by (simp add: percentile_of_sorted_def)
next
  case n1: False
  moreover have "length xs \<noteq> 0" using ne by simp
  ultimately have len: "2 \<le> length xs" by linarith
  show ?thesis
  proof (cases "q = 100")
    case True
    then have "b = last xs" using eq n1 by (simp add: percentile_of_sorted_def last_conv_nth ne)
    moreover have "a \<le> last xs"
      using percentile_range(2)[OF srt ne p0 _ ep] pq q100 by simp
    ultimately show ?thesis by simp
  next
    case False
    then have "q < 100" using q100 by simp
    then show ?thesis using percentile_mono_interior[OF srt len p0 pq _ ep eq] by simp
  qed
qed

text \<open>
  C5. For a non-empty vector and \<open>0 \<le> pct \<le> 100\<close>, \<open>percentile_of_sorted\<close> returns
  the linear interpolation at \<open>rank = pct / 100 * (len - 1)\<close> between the elements at
  the floor and at the ceiling of the rank; a vector of one element gives that element,
  \<open>pct = 100\<close> gives the last element, and on \<open>[1, 2, 3, 4, 5]\<close> the percentiles 50, 0,
  100 and 25 are 3, 1, 5 and 2.
\<close>

theorem percentile_of_sorted_interpolates:
  assumes "xs \<noteq> []" and "0 \<le> pct" and "pct \<le> 100"
  shows "percentile_of_sorted xs pct =
      (let rank = pct / 100 * real (length xs - 1) in
       Inr (xs ! nat \<lfloor>rank\<rfloor>
            + (xs ! nat \<lceil>rank\<rceil> - xs ! nat \<lfloor>rank\<rfloor>) * (rank - of_int \<lfloor>rank\<rfloor>)))
    \<and> percentile_of_sorted [x] pct = Inr x
    \<and> percentile_of_sorted xs 100 = Inr (last xs)
    \<and> percentile_of_sorted [1, 2, 3, 4, 5] 50 = Inr 3
    \<and> percentile_of_sorted [1, 2, 3, 4, 5] 0 = Inr 1
    \<and> percentile_of_sorted [1, 2, 3, 4, 5] 100 = Inr 5
    \<and> percentile_of_sorted [1, 2, 3, 4, 5] 25 = Inr 2"
proof -
  have "percentile_of_sorted [1, 2, 3, 4, 5] 50 = Inr 3"
    by (simp add: percentile_of_sorted_def Let_def)
  moreover have "percentile_of_sorted [1, 2, 3, 4, 5] 0 = Inr 1"
    by (simp add: percentile_of_sorted_def Let_def)
  moreover have "percentile_of_sorted [1, 2, 3, 4, 5] 100 = Inr 5"
    by (simp add: percentile_of_sorted_def Let_def)
  moreover have "percentile_of_sorted [1, 2, 3, 4, 5] 25 = Inr 2"
    by (simp add: percentile_of_sorted_def Let_def)
  ultimately show ?thesis
    using percentile_formula[OF assms] percentile_single[of x pct]
      percentile_hundred[OF assms(1)]
    by simp
qed

theorem percentile_of_sorted_interpolates_witness:
  "[10, 20, 40 :: real] \<noteq> [] \<and> (0 :: real) \<le> 75 \<and> (75 :: real) \<le> 100
   \<and> percentile_of_sorted [10, 20, 40] 75 = Inr 30
   \<and> percentile_of_sorted [7] 75 = Inr 7
   \<and> percentile_of_sorted [10, 20, 40] 100 = Inr 40"
proof -
  have h1: "[10, 20, 40 :: real] \<noteq> []" and h2: "(0 :: real) \<le> 75"
    and h3: "(75 :: real) \<le> 100"
    by simp_all
  show ?thesis
    using percentile_of_sorted_interpolates[OF h1 h2 h3, of 7]
    by (simp add: Let_def)
qed

text \<open>
  C10. On a non-empty ascending vector \<open>percentile_of_sorted\<close> is monotone in the
  percentile: for \<open>0 \<le> p \<le> q \<le> 100\<close> the result at \<open>p\<close> is at most the result at \<open>q\<close>,
  and both lie between the first and the last element. Hence in \<open>winsorize\<close> with
  \<open>0 \<le> pct \<le> 50\<close> the bound \<open>lo\<close> is at most the bound \<open>hi\<close>.
\<close>

theorem percentile_of_sorted_monotone:
  assumes "sorted s" and "s \<noteq> []" and "0 \<le> p" and "p \<le> q" and "q \<le> 100"
    and "samples \<noteq> []" and "0 \<le> pct" and "pct \<le> 50"
  shows "(\<exists>a b. percentile_of_sorted s p = Inr a \<and> percentile_of_sorted s q = Inr b
            \<and> a \<le> b \<and> hd s \<le> a \<and> a \<le> last s \<and> hd s \<le> b \<and> b \<le> last s)
    \<and> (\<exists>lo hi. percentile_of_sorted (sort samples) pct = Inr lo
            \<and> percentile_of_sorted (sort samples) (100 - pct) = Inr hi \<and> lo \<le> hi)"
proof -
  have p100: "p \<le> 100" and q0: "0 \<le> q" using assms by simp_all
  obtain a where a: "percentile_of_sorted s p = Inr a"
    using percentile_defined[OF assms(2,3) p100] by blast
  obtain b where b: "percentile_of_sorted s q = Inr b"
    using percentile_defined[OF assms(2) q0 assms(5)] by blast
  have "a \<le> b" by (rule percentile_mono[OF assms(1-5) a b])
  moreover note percentile_range[OF assms(1,2,3) p100 a]
    percentile_range[OF assms(1,2) q0 assms(5) b]
  ultimately have first: "\<exists>a b. percentile_of_sorted s p = Inr a
      \<and> percentile_of_sorted s q = Inr b
      \<and> a \<le> b \<and> hd s \<le> a \<and> a \<le> last s \<and> hd s \<le> b \<and> b \<le> last s"
    using a b by blast
  have srt: "sorted (sort samples)" by simp
  have ne: "sort samples \<noteq> []" using assms(6) by (metis length_sort length_0_conv)
  have c1: "pct \<le> 100 - pct" and c2: "100 - pct \<le> 100" and c3: "pct \<le> 100"
    and c4: "0 \<le> 100 - pct"
    using assms(7,8) by simp_all
  obtain lo where lo: "percentile_of_sorted (sort samples) pct = Inr lo"
    using percentile_defined[OF ne assms(7) c3] by blast
  obtain hi where hi: "percentile_of_sorted (sort samples) (100 - pct) = Inr hi"
    using percentile_defined[OF ne c4 c2] by blast
  have "lo \<le> hi" by (rule percentile_mono[OF srt ne assms(7) c1 c2 lo hi])
  with lo hi first show ?thesis by blast
qed

theorem percentile_of_sorted_monotone_witness:
  "sorted [1, 2, 4 :: real] \<and> [1, 2, 4 :: real] \<noteq> [] \<and> (0 :: real) \<le> 25
   \<and> (25 :: real) \<le> 75 \<and> (75 :: real) \<le> 100
   \<and> [4, 1, 2 :: real] \<noteq> [] \<and> (25 :: real) \<le> 50
   \<and> percentile_of_sorted [1, 2, 4] 25 = Inr (3 / 2)
   \<and> percentile_of_sorted [1, 2, 4] 75 = Inr 3
   \<and> (\<exists>a b. percentile_of_sorted [1, 2, 4] 25 = Inr a
          \<and> percentile_of_sorted [1, 2, 4] 75 = Inr b \<and> a \<le> b)"
proof -
  have h1: "sorted [1, 2, 4 :: real]" by simp
  have h2: "[1, 2, 4 :: real] \<noteq> []" by simp
  have h3: "(0 :: real) \<le> 25" by simp
  have h4: "(25 :: real) \<le> 75" by simp
  have h5: "(75 :: real) \<le> 100" by simp
  have h6: "[4, 1, 2 :: real] \<noteq> []" by simp
  have h8: "(25 :: real) \<le> 50" by simp
  have e1: "percentile_of_sorted [1, 2, 4] 25 = Inr (3 / 2)"
    by (simp add: percentile_of_sorted_def Let_def)
  have e2: "percentile_of_sorted [1, 2, 4] 75 = Inr 3"
    by (simp add: percentile_of_sorted_def Let_def)
  have "\<exists>a b. percentile_of_sorted [1, 2, 4] 25 = Inr a
          \<and> percentile_of_sorted [1, 2, 4] 75 = Inr b \<and> a \<le> b"
    using percentile_of_sorted_monotone[OF h1 h2 h3 h4 h5 h6 h3 h8] by blast
  with h1 h2 h3 h4 h5 h6 h8 e1 e2 show ?thesis by blast
qed

section \<open>Winsorizing\<close>

lemma sort_not_Nil: "xs \<noteq> [] \<Longrightarrow> sort xs \<noteq> []"
  by (metis length_sort length_0_conv)

lemma winsorize_bounds:
  assumes ne: "samples \<noteq> []" and p0: "0 \<le> pct" and p50: "pct \<le> 50"
  shows "\<exists>lo hi. percentile_of_sorted (sort samples) pct = Inr lo
      \<and> percentile_of_sorted (sort samples) (100 - pct) = Inr hi
      \<and> lo \<le> hi
      \<and> winsorize samples pct = Inr (map (clamp_sample lo hi) (sort samples))"
proof -
  have srt: "sorted (sort samples)" by simp
  note ne' = sort_not_Nil[OF ne]
  have c1: "pct \<le> 100 - pct" and c2: "100 - pct \<le> 100" and c3: "pct \<le> 100"
    and c4: "0 \<le> 100 - pct"
    using p0 p50 by simp_all
  obtain lo where lo: "percentile_of_sorted (sort samples) pct = Inr lo"
    using percentile_defined[OF ne' p0 c3] by blast
  obtain hi where hi: "percentile_of_sorted (sort samples) (100 - pct) = Inr hi"
    using percentile_defined[OF ne' c4 c2] by blast
  have "lo \<le> hi" by (rule percentile_mono[OF srt ne' p0 c1 c2 lo hi])
  moreover have "winsorize samples pct = Inr (map (clamp_sample lo hi) (sort samples))"
    by (simp add: winsorize_def lo hi)
  ultimately show ?thesis using lo hi by blast
qed

lemma clamp_sample_cases:
  assumes "lo \<le> hi"
  shows "hi < v \<Longrightarrow> clamp_sample lo hi v = hi"
    and "v < lo \<Longrightarrow> clamp_sample lo hi v = lo"
    and "lo \<le> v \<Longrightarrow> v \<le> hi \<Longrightarrow> clamp_sample lo hi v = v"
  using assms by (simp_all add: clamp_sample_def)

lemma sorted_upto_real: "sorted (map real [a..<b])"
  by (simp add: sorted_map sorted_wrt_map)

lemma percentile_100_5: "percentile_of_sorted (map real [1..<101]) 5 = Inr (595 / 100)"
  by (simp add: percentile_of_sorted_def Let_def)

lemma percentile_100_95: "percentile_of_sorted (map real [1..<101]) 95 = Inr (9505 / 100)"
  by (simp add: percentile_of_sorted_def Let_def)

lemma map_const_replicate:
  "(\<And>x. x \<in> set xs \<Longrightarrow> f x = c) \<Longrightarrow> map f xs = replicate (length xs) c"
  by (induction xs) simp_all

lemma map_ident_on:
  "(\<And>x. x \<in> set xs \<Longrightarrow> f x = g x) \<Longrightarrow> map f xs = map g xs"
  by (induction xs) simp_all

lemma upt_split: "a \<le> b \<Longrightarrow> b \<le> c \<Longrightarrow> [a..<c] = [a..<b] @ [b..<c]"
  by (metis le_add_diff_inverse upt_add_eq_append)

lemma clamp_100:
  "map (clamp_sample (595 / 100) (9505 / 100)) (map real [1..<101]) =
     replicate 5 (595 / 100) @ map real [6..<96] @ replicate 5 (9505 / 100)"
proof -
  let ?f = "clamp_sample (595 / 100) (9505 / 100) \<circ> real"
  have l1: "length [1..<6::nat] = 5" and l3: "length [96..<101::nat] = 5"
    by (simp_all only: length_upt)
  have a: "map ?f [1..<6] = replicate 5 (595 / 100)"
  proof -
    have "map ?f [1..<6] = replicate (length [1..<6::nat]) (595 / 100)"
    proof (rule map_const_replicate)
      fix x :: nat
      assume "x \<in> set [1..<6]"
      then have "x < 6" by (simp only: set_upt atLeastLessThan_iff)
      then have "real x \<le> 5" by simp
      then show "?f x = 595 / 100" by (simp add: clamp_sample_def)
    qed
    then show ?thesis by (simp only: l1)
  qed
  have b: "map ?f [6..<96] = map real [6..<96]"
  proof (rule map_ident_on)
    fix x :: nat
    assume "x \<in> set [6..<96]"
    then have "6 \<le> x" "x < 96" by (simp_all only: set_upt atLeastLessThan_iff)
    then have "6 \<le> real x" "real x \<le> 95" by simp_all
    then show "?f x = real x" by (simp add: clamp_sample_def)
  qed
  have c: "map ?f [96..<101] = replicate 5 (9505 / 100)"
  proof -
    have "map ?f [96..<101] = replicate (length [96..<101::nat]) (9505 / 100)"
    proof (rule map_const_replicate)
      fix x :: nat
      assume "x \<in> set [96..<101]"
      then have "96 \<le> x" by (simp only: set_upt atLeastLessThan_iff)
      then have "96 \<le> real x" by simp
      then show "?f x = 9505 / 100" by (simp add: clamp_sample_def)
    qed
    then show ?thesis by (simp only: l3)
  qed
  have h1: "(1::nat) \<le> 6" and h2: "(6::nat) \<le> 101" and h3: "(6::nat) \<le> 96"
    and h4: "(96::nat) \<le> 101"
    by simp_all
  have split: "[1..<101] = [1..<6] @ [6..<96] @ [96..<101]"
    using upt_split[OF h1 h2] upt_split[OF h3 h4] by (simp only:)
  have "map (clamp_sample (595 / 100) (9505 / 100)) (map real [1..<101])
      = map ?f ([1..<6] @ [6..<96] @ [96..<101])"
    unfolding map_map split[symmetric] ..
  also have "\<dots> = replicate 5 (595 / 100) @ map real [6..<96] @ replicate 5 (9505 / 100)"
    unfolding map_append a b c ..
  finally show ?thesis .
qed

lemma winsorize_100: "winsorize (map real [1..<101]) 5 =
    Inr (replicate 5 (595 / 100) @ map real [6..<96] @ replicate 5 (9505 / 100))"
proof -
  have s: "sort (map real [1..<101]) = map real [1..<101]"
    by (rule sorted_sort_id[OF sorted_upto_real])
  have m: "(100 :: real) - 5 = 95" by simp
  show ?thesis
    unfolding winsorize_def Let_def s m percentile_100_5 percentile_100_95 sum.case clamp_100 ..
qed

lemma clamp_sample_mono:
  "lo \<le> hi \<Longrightarrow> x \<le> y \<Longrightarrow> clamp_sample lo hi x \<le> clamp_sample lo hi y"
  by (simp add: clamp_sample_def)

lemma clamp_sample_idem:
  "lo \<le> hi \<Longrightarrow> clamp_sample lo hi (clamp_sample lo hi v) = clamp_sample lo hi v"
  by (simp add: clamp_sample_def)

lemma sorted_map_clamp:
  assumes "lo \<le> hi" and "sorted xs"
  shows "sorted (map (clamp_sample lo hi) xs)"
  using assms(2)
  by (induction xs) (auto simp: clamp_sample_mono[OF assms(1)])

lemma percentile_zero:
  assumes "xs \<noteq> []"
  shows "percentile_of_sorted xs 0 = Inr (xs ! 0)"
  using assms by (simp add: percentile_of_sorted_def Let_def)

lemma clamp_sorted_span:
  assumes srt: "sorted xs" and ne: "xs \<noteq> []"
  shows "map (clamp_sample (xs ! 0) (last xs)) xs = xs"
proof (rule map_idI)
  fix x
  assume "x \<in> set xs"
  then obtain i where i: "i < length xs" and x: "x = xs ! i"
    by (auto simp: in_set_conv_nth)
  have "xs ! 0 \<le> xs ! i" using srt i by (intro sorted_nth_mono) simp_all
  moreover have "xs ! i \<le> xs ! (length xs - 1)"
    using srt i by (intro sorted_nth_mono) simp_all
  ultimately show "clamp_sample (xs ! 0) (last xs) x = x"
    using ne by (simp add: clamp_sample_def x last_conv_nth)
qed

lemma winsorize_zero_sorted:
  assumes srt: "sorted xs" and ne: "xs \<noteq> []"
  shows "winsorize xs 0 = Inr xs"
  by (simp add: winsorize_def sorted_sort_id[OF srt] percentile_zero[OF ne]
      percentile_hundred[OF ne] clamp_sorted_span[OF srt ne])

lemma winsorize_zero:
  assumes "samples \<noteq> []"
  shows "winsorize samples 0 = Inr (sort samples)"
    and "winsorize (sort samples) 0 = Inr (sort samples)"
proof -
  have srt: "sorted (sort samples)" by simp
  note ne = sort_not_Nil[OF assms]
  show "winsorize (sort samples) 0 = Inr (sort samples)"
    by (rule winsorize_zero_sorted[OF srt ne])
  then show "winsorize samples 0 = Inr (sort samples)"
    by (simp add: winsorize_def sorted_sort_id[OF srt])
qed

text \<open>
  C6. For a non-empty vector and \<open>0 \<le> pct \<le> 50\<close>, \<open>winsorize\<close> keeps the number of
  samples; with \<open>lo\<close> and \<open>hi\<close> the percentiles \<open>pct\<close> and \<open>100 - pct\<close> of the sorted
  vector, a value above \<open>hi\<close> becomes \<open>hi\<close>, a value below \<open>lo\<close> becomes \<open>lo\<close> and a value
  in \<open>[lo, hi]\<close> is kept. On \<open>[1..100]\<close> with \<open>pct = 5\<close> the bounds are 5.95 and 95.05:
  the values 1 to 5 become 5.95, the values 6 to 95 are kept, the values 96 to 100
  become 95.05, and the result has 100 elements.
\<close>

theorem winsorize_clamps:
  assumes "samples \<noteq> []" and "0 \<le> pct" and "pct \<le> 50"
  shows "(\<exists>lo hi ys.
        percentile_of_sorted (sort samples) pct = Inr lo
      \<and> percentile_of_sorted (sort samples) (100 - pct) = Inr hi
      \<and> winsorize samples pct = Inr ys
      \<and> length ys = length samples
      \<and> (\<forall>i < length samples.
            (hi < sort samples ! i \<longrightarrow> ys ! i = hi)
          \<and> (sort samples ! i < lo \<longrightarrow> ys ! i = lo)
          \<and> (lo \<le> sort samples ! i \<and> sort samples ! i \<le> hi
               \<longrightarrow> ys ! i = sort samples ! i)))
    \<and> percentile_of_sorted (sort (map real [1..<101])) 5 = Inr (595 / 100)
    \<and> percentile_of_sorted (sort (map real [1..<101])) (100 - 5) = Inr (9505 / 100)
    \<and> winsorize (map real [1..<101]) 5 =
        Inr (replicate 5 (595 / 100) @ map real [6..<96] @ replicate 5 (9505 / 100))
    \<and> length (replicate 5 (595 / 100 :: real) @ map real [6..<96]
          @ replicate 5 (9505 / 100)) = 100"
proof -
  obtain lo hi where lo: "percentile_of_sorted (sort samples) pct = Inr lo"
    and hi: "percentile_of_sorted (sort samples) (100 - pct) = Inr hi"
    and lohi: "lo \<le> hi"
    and w: "winsorize samples pct = Inr (map (clamp_sample lo hi) (sort samples))"
    using winsorize_bounds[OF assms] by blast
  have "\<forall>i < length samples.
            (hi < sort samples ! i \<longrightarrow> map (clamp_sample lo hi) (sort samples) ! i = hi)
          \<and> (sort samples ! i < lo \<longrightarrow> map (clamp_sample lo hi) (sort samples) ! i = lo)
          \<and> (lo \<le> sort samples ! i \<and> sort samples ! i \<le> hi
               \<longrightarrow> map (clamp_sample lo hi) (sort samples) ! i = sort samples ! i)"
    using clamp_sample_cases[OF lohi] by simp
  moreover have "length (map (clamp_sample lo hi) (sort samples)) = length samples"
    by simp
  ultimately have general: "\<exists>lo hi ys.
        percentile_of_sorted (sort samples) pct = Inr lo
      \<and> percentile_of_sorted (sort samples) (100 - pct) = Inr hi
      \<and> winsorize samples pct = Inr ys
      \<and> length ys = length samples
      \<and> (\<forall>i < length samples.
            (hi < sort samples ! i \<longrightarrow> ys ! i = hi)
          \<and> (sort samples ! i < lo \<longrightarrow> ys ! i = lo)
          \<and> (lo \<le> sort samples ! i \<and> sort samples ! i \<le> hi
               \<longrightarrow> ys ! i = sort samples ! i))"
    using lo hi w by blast
  have s: "sort (map real [1..<101]) = map real [1..<101]"
    by (rule sorted_sort_id[OF sorted_upto_real])
  have m: "(100 :: real) - 5 = 95" by simp
  have e1: "percentile_of_sorted (sort (map real [1..<101])) 5 = Inr (595 / 100)"
    unfolding s by (rule percentile_100_5)
  have e2: "percentile_of_sorted (sort (map real [1..<101])) (100 - 5) = Inr (9505 / 100)"
    unfolding s m by (rule percentile_100_95)
  have e3: "length (replicate 5 (595 / 100 :: real) @ map real [6..<96]
          @ replicate 5 (9505 / 100)) = 100"
    by (simp only: length_append length_replicate length_map length_upt)
  from general e1 e2 winsorize_100 e3 show ?thesis by (intro conjI)
qed

theorem winsorize_clamps_witness:
  "[3, 1, 2 :: real] \<noteq> [] \<and> (0 :: real) \<le> 25 \<and> (25 :: real) \<le> 50
   \<and> winsorize [3, 1, 2] 25 = Inr [3 / 2, 2, 5 / 2]"
proof -
  have h1: "[3, 1, 2 :: real] \<noteq> []" and h2: "(0 :: real) \<le> 25" and h3: "(25 :: real) \<le> 50"
    by simp_all
  have s: "sort [3, 1, 2 :: real] = [1, 2, 3]" by simp
  have m: "(100 :: real) - 25 = 75" by simp
  have plo: "percentile_of_sorted [1, 2, 3] 25 = Inr (3 / 2)"
    by (simp add: percentile_of_sorted_def Let_def)
  have phi: "percentile_of_sorted [1, 2, 3] 75 = Inr (5 / 2)"
    by (simp add: percentile_of_sorted_def Let_def)
  from winsorize_clamps[OF h1 h2 h3]
  obtain lo hi ys where lo: "percentile_of_sorted [1, 2, 3] 25 = Inr lo"
    and hi: "percentile_of_sorted [1, 2, 3] 75 = Inr hi"
    and w: "winsorize [3, 1, 2] 25 = Inr ys"
    and len: "length ys = 3"
    and pt: "\<forall>i < 3. (hi < [1, 2, 3] ! i \<longrightarrow> ys ! i = hi)
          \<and> ([1, 2, 3] ! i < lo \<longrightarrow> ys ! i = lo)
          \<and> (lo \<le> [1, 2, 3] ! i \<and> [1, 2, 3] ! i \<le> hi \<longrightarrow> ys ! i = [1, 2, 3] ! i)"
    unfolding s m by auto
  have lo': "lo = 3 / 2" using lo plo by simp
  have hi': "hi = 5 / 2" using hi phi by simp
  have y0: "ys ! 0 = 3 / 2" using pt[rule_format, of 0] by (simp add: lo' hi')
  have y1: "ys ! Suc 0 = 2" using pt[rule_format, of "Suc 0"] by (simp add: lo' hi')
  have y2: "ys ! Suc (Suc 0) = 5 / 2"
    using pt[rule_format, of "Suc (Suc 0)"] by (simp add: lo' hi')
  have "ys = [3 / 2, 2, 5 / 2]"
    using len y0 y1 y2
    by (auto simp: list_eq_iff_nth_eq less_Suc_eq numeral_3_eq_3)
  with w h1 h2 h3 show ?thesis by simp
qed

text \<open>
  C2, as amended. The vector \<open>winsorize\<close> returns is sorted, has the length of its
  argument and is a fixed point of the clamping to the bounds \<open>lo\<close> and \<open>hi\<close> it was
  clamped to. A second \<open>winsorize\<close> with the same percentile computes its bounds anew,
  from the clamped vector: it returns the vector unchanged whenever the new bounds are
  the old ones. At \<open>pct = 0\<close> the bounds are the least and the greatest sample, so that
  \<open>winsorize\<close> only sorts and a second application changes nothing.
\<close>

theorem winsorize_fixed_point_same_bounds:
  assumes "samples \<noteq> []" and "0 \<le> pct" and "pct \<le> 50"
    and "winsorize samples pct = Inr ys"
    and "percentile_of_sorted (sort samples) pct = Inr lo"
    and "percentile_of_sorted (sort samples) (100 - pct) = Inr hi"
  shows "sorted ys \<and> length ys = length samples
    \<and> map (clamp_sample lo hi) ys = ys
    \<and> (percentile_of_sorted ys pct = Inr lo \<and> percentile_of_sorted ys (100 - pct) = Inr hi
          \<longrightarrow> winsorize ys pct = Inr ys)
    \<and> winsorize samples 0 = Inr (sort samples)
    \<and> winsorize (sort samples) 0 = Inr (sort samples)"
proof -
  obtain lo1 hi1 where lo1: "percentile_of_sorted (sort samples) pct = Inr lo1"
    and hi1: "percentile_of_sorted (sort samples) (100 - pct) = Inr hi1"
    and le1: "lo1 \<le> hi1"
    and w1: "winsorize samples pct = Inr (map (clamp_sample lo1 hi1) (sort samples))"
    using winsorize_bounds[OF assms(1-3)] by blast
  have lo: "lo1 = lo" using lo1 assms(5) by simp
  have hi: "hi1 = hi" using hi1 assms(6) by simp
  have le: "lo \<le> hi" using le1 lo hi by simp
  have ys: "ys = map (clamp_sample lo hi) (sort samples)"
    using w1 assms(4) lo hi by simp
  have srt: "sorted ys" unfolding ys by (rule sorted_map_clamp[OF le]) simp
  have len: "length ys = length samples" by (simp add: ys)
  have fx: "map (clamp_sample lo hi) ys = ys"
    unfolding ys by (simp add: clamp_sample_idem[OF le])
  have again: "percentile_of_sorted ys pct = Inr lo
      \<and> percentile_of_sorted ys (100 - pct) = Inr hi \<longrightarrow> winsorize ys pct = Inr ys"
    by (simp add: winsorize_def sorted_sort_id[OF srt] fx)
  from srt len fx again winsorize_zero[OF assms(1)] show ?thesis by (intro conjI)
qed

theorem winsorize_fixed_point_same_bounds_witness:
  "[5, 1, 3, 2, 4 :: real] \<noteq> [] \<and> (0 :: real) \<le> 25 \<and> (25 :: real) \<le> 50
   \<and> winsorize [5, 1, 3, 2, 4] 25 = Inr [2, 2, 3, 4, 4]
   \<and> percentile_of_sorted (sort [5, 1, 3, 2, 4]) 25 = Inr 2
   \<and> percentile_of_sorted (sort [5, 1, 3, 2, 4]) (100 - 25) = Inr 4
   \<and> percentile_of_sorted [2, 2, 3, 4, 4] 25 = Inr 2
   \<and> percentile_of_sorted [2, 2, 3, 4, 4] (100 - 25) = Inr 4
   \<and> winsorize [2, 2, 3, 4, 4] 25 = Inr [2, 2, 3, 4, 4]
   \<and> winsorize [5, 1, 3, 2, 4] 0 = Inr [1, 2, 3, 4, 5]
   \<and> winsorize [1, 2, 3, 4, 5] 0 = Inr [1, 2, 3, 4, 5]"
proof -
  have h1: "[5, 1, 3, 2, 4 :: real] \<noteq> []" and h2: "(0 :: real) \<le> 25"
    and h3: "(25 :: real) \<le> 50"
    by simp_all
  have h4: "winsorize [5, 1, 3, 2, 4] 25 = Inr [2, 2, 3, 4, 4]"
    by (simp add: winsorize_def percentile_of_sorted_def Let_def clamp_sample_def)
  have h5: "percentile_of_sorted (sort [5, 1, 3, 2, 4]) 25 = Inr 2"
    by (simp add: percentile_of_sorted_def Let_def)
  have h6: "percentile_of_sorted (sort [5, 1, 3, 2, 4]) (100 - 25) = Inr 4"
    by (simp add: percentile_of_sorted_def Let_def)
  have h7: "percentile_of_sorted [2, 2, 3, 4, 4] 25 = Inr 2"
    by (simp add: percentile_of_sorted_def Let_def)
  have h8: "percentile_of_sorted [2, 2, 3, 4, 4] (100 - 25) = Inr 4"
    by (simp add: percentile_of_sorted_def Let_def)
  have s: "sort [5, 1, 3, 2, 4 :: real] = [1, 2, 3, 4, 5]" by simp
  note t = winsorize_fixed_point_same_bounds[OF h1 h2 h3 h4 h5 h6]
  have a: "winsorize [2, 2, 3, 4, 4] 25 = Inr [2, 2, 3, 4, 4]"
    using t[THEN conjunct2, THEN conjunct2, THEN conjunct2, THEN conjunct1] h7 h8
    by blast
  have b: "winsorize [5, 1, 3, 2, 4] 0 = Inr [1, 2, 3, 4, 5]"
    using t[THEN conjunct2, THEN conjunct2, THEN conjunct2, THEN conjunct2, THEN conjunct1]
    by (simp only: s)
  have c: "winsorize [1, 2, 3, 4, 5] 0 = Inr [1, 2, 3, 4, 5]"
    using t[THEN conjunct2, THEN conjunct2, THEN conjunct2, THEN conjunct2, THEN conjunct2]
    by (simp only: s)
  from h1 h2 h3 h4 h5 h6 h7 h8 a b c show ?thesis by (intro conjI)
qed

text \<open>
  C2, as stated, fails: on \<open>[1, 2, 3]\<close> with \<open>pct = 25\<close> the rank is 0.5, the first
  application gives \<open>[1.5, 2, 2.5]\<close>, and the second one interpolates new bounds
  between the clamped values and gives \<open>[1.75, 2, 2.25]\<close>.
\<close>

theorem winsorize_not_idempotent:
  "winsorize [1, 2, 3] 25 = Inr [3 / 2, 2, 5 / 2]
   \<and> winsorize [3 / 2, 2, 5 / 2] 25 = Inr [7 / 4, 2, 9 / 4]
   \<and> winsorize [3 / 2, 2, 5 / 2] 25 \<noteq> Inr [3 / 2, 2, 5 / 2]"
  by (simp add: winsorize_def percentile_of_sorted_def Let_def clamp_sample_def)

section \<open>Summaries\<close>

lemma fold_max_const: "\<forall>x \<in> set xs. x = v \<Longrightarrow> fold max xs (v :: real) = v"
  by (induction xs) simp_all

lemma fold_min_const: "\<forall>x \<in> set xs. x = v \<Longrightarrow> fold min xs (v :: real) = v"
  by (induction xs) simp_all

lemma calc_max_const:
  assumes "samples \<noteq> []" and "\<forall>x \<in> set samples. x = v"
  shows "calc_max samples = Inr v"
  using assms by (cases samples) (simp_all add: fold_max_const)

lemma calc_min_const:
  assumes "samples \<noteq> []" and "\<forall>x \<in> set samples. x = v"
  shows "calc_min samples = Inr v"
  using assms by (cases samples) (simp_all add: fold_min_const)

lemma percentile_const:
  assumes ne: "xs \<noteq> []" and c: "\<forall>x \<in> set xs. x = v"
    and p0: "0 \<le> pct" and p100: "pct \<le> 100"
  shows "percentile_of_sorted xs pct = Inr v"
proof -
  have nth: "\<And>i. i < length xs \<Longrightarrow> xs ! i = v" using c by simp
  show ?thesis
  proof (cases "length xs = 1")
    case True
    then show ?thesis using ne nth[of 0] by (simp add: percentile_of_sorted_def)
  next
    case n1: False
    moreover have "length xs \<noteq> 0" using ne by simp
    ultimately have len: "2 \<le> length xs" by linarith
    show ?thesis
    proof (cases "pct = 100")
      case True
      then show ?thesis
        using ne n1 nth[of "length xs - 1"] by (simp add: percentile_of_sorted_def)
    next
      case False
      then have lt: "pct < 100" using p100 by simp
      define rank where "rank = pct / 100 * real (length xs - 1)"
      have n: "nat \<lfloor>rank\<rfloor> + 1 < length xs"
        by (rule rank_floor_bounds(2)[OF len p0 lt rank_def])
      then have "xs ! nat \<lfloor>rank\<rfloor> = v" and "xs ! (nat \<lfloor>rank\<rfloor> + 1) = v"
        by (simp_all add: nth)
      then show ?thesis
        using percentile_interior[OF len p0 lt] by (simp add: rank_def)
    qed
  qed
qed

lemma calc_median_const:
  assumes "samples \<noteq> []" and "\<forall>x \<in> set samples. x = v"
  shows "calc_median samples = Inr v"
proof -
  have "sort samples \<noteq> []" using assms(1) by (metis length_sort length_0_conv)
  moreover have "\<forall>x \<in> set (sort samples). x = v" using assms(2) by simp
  ultimately show ?thesis
    by (simp add: calc_median_def calc_percentile_def percentile_const)
qed

lemma calc_median_abs_dev_const:
  assumes "samples \<noteq> []" and "\<forall>x \<in> set samples. x = v"
  shows "calc_median_abs_dev samples = Inr 0"
proof -
  have "map (\<lambda>x. v - x) samples \<noteq> []" using assms(1) by simp
  moreover have "\<forall>y \<in> set (map (\<lambda>x. v - x) samples). y = 0" using assms(2) by simp
  ultimately have "calc_median (map (\<lambda>x. v - x) samples) = Inr 0"
    by (rule calc_median_const)
  then show ?thesis
    by (simp add: calc_median_abs_dev_def calc_median_const[OF assms])
qed

lemma sort_const:
  assumes "\<forall>x \<in> set xs. x = (v :: real)"
  shows "sort xs = xs"
proof -
  have "replicate (length xs) v = xs" using assms by (simp add: replicate_length_same)
  then have "sorted xs" by (metis sorted_replicate)
  then show ?thesis by (rule sorted_sort_id)
qed

lemma winsorize_const:
  assumes ne: "xs \<noteq> []" and c: "\<forall>x \<in> set xs. x = v"
    and p0: "0 \<le> pct" and p100: "pct \<le> 100"
  shows "winsorize xs pct = Inr xs"
proof -
  have q0: "0 \<le> 100 - pct" and q100: "100 - pct \<le> 100" using p0 p100 by simp_all
  have "map (clamp_sample v v) xs = xs"
    using c by (intro map_idI) (simp add: clamp_sample_def)
  then show ?thesis
    by (simp add: winsorize_def sort_const[OF c] percentile_const[OF ne c p0 p100]
        percentile_const[OF ne c q0 q100])
qed

lemma Summary_const_value:
  assumes "samples \<noteq> []" and "\<forall>x \<in> set samples. x = v"
  shows "Summary samples =
      Inr \<lparr>max_v = v, min_v = v, median = v, median_abs_dev = 0,
           median_abs_dev_pct = (if v \<noteq> 0 then Finite 0 else NaN)\<rparr>"
  by (simp add: Summary_def calc_max_const[OF assms] calc_min_const[OF assms]
      calc_median_const[OF assms] calc_median_abs_dev_const[OF assms] fdiv_def)

text \<open>
  C3, as amended. The summary of a vector of one element \<open>x\<close> has \<open>max\<close>, \<open>min\<close> and
  \<open>median\<close> equal to \<open>x\<close> and \<open>median_abs_dev\<close> equal to 0. The summary of a non-empty
  vector whose elements all equal \<open>v\<close> has \<open>median = v\<close> and \<open>median_abs_dev = 0\<close>, and
  \<open>median_abs_dev_pct\<close> is 0 when \<open>v \<noteq> 0\<close>; for \<open>v = 0\<close> it is the quotient \<open>0 / 0\<close>,
  which is NaN.
\<close>

theorem Summary_constant:
  assumes "samples \<noteq> []" and "\<forall>x \<in> set samples. x = v"
  shows "Summary samples =
      Inr \<lparr>max_v = v, min_v = v, median = v, median_abs_dev = 0,
           median_abs_dev_pct = (if v \<noteq> 0 then Finite 0 else NaN)\<rparr>
    \<and> Summary [x] =
      Inr \<lparr>max_v = x, min_v = x, median = x, median_abs_dev = 0,
           median_abs_dev_pct = (if x \<noteq> 0 then Finite 0 else NaN)\<rparr>"
proof -
  have one: "[x] \<noteq> []" "\<forall>y \<in> set [x]. y = x" by simp_all
  have "Summary samples =
      Inr \<lparr>max_v = v, min_v = v, median = v, median_abs_dev = 0,
           median_abs_dev_pct = (if v \<noteq> 0 then Finite 0 else NaN)\<rparr>"
    by (simp add: Summary_def calc_max_const[OF assms] calc_min_const[OF assms]
        calc_median_const[OF assms] calc_median_abs_dev_const[OF assms] fdiv_def)
  moreover have "Summary [x] =
      Inr \<lparr>max_v = x, min_v = x, median = x, median_abs_dev = 0,
           median_abs_dev_pct = (if x \<noteq> 0 then Finite 0 else NaN)\<rparr>"
    by (simp add: Summary_def calc_max_const[OF one] calc_min_const[OF one]
        calc_median_const[OF one] calc_median_abs_dev_const[OF one] fdiv_def)
  ultimately show ?thesis by (rule conjI)
qed

theorem Summary_constant_witness:
  "[7, 7, 7 :: real] \<noteq> [] \<and> set [7, 7, 7 :: real] = {7}
   \<and> Summary [7, 7, 7] =
      Inr \<lparr>max_v = 7, min_v = 7, median = 7, median_abs_dev = 0,
           median_abs_dev_pct = Finite 0\<rparr>
   \<and> Summary [3] =
      Inr \<lparr>max_v = 3, min_v = 3, median = 3, median_abs_dev = 0,
           median_abs_dev_pct = Finite 0\<rparr>"
proof -
  have h1: "[7, 7, 7 :: real] \<noteq> []" and h2: "\<forall>x \<in> set [7, 7, 7 :: real]. x = 7"
    by simp_all
  show ?thesis
    using Summary_constant[OF h1 h2, of 3] h1 h2 by simp
qed

text \<open>
  C3, as stated, fails for \<open>v = 0\<close>: the last member is \<open>100 * 0 / 0\<close>, which is NaN
  and compares unequal to 0.
\<close>

theorem Summary_zero_not_zero_pct:
  "Summary [0, 0] =
      Inr \<lparr>max_v = 0, min_v = 0, median = 0, median_abs_dev = 0,
           median_abs_dev_pct = NaN\<rparr>
   \<and> \<not> quotient_eq NaN 0"
  by (simp add: Summary_def calc_median_abs_dev_def calc_median_def calc_percentile_def
      percentile_of_sorted_def Let_def fdiv_def)

section \<open>Batches, the convergence test and the throughput\<close>

lemma call_loop_funpow:
  "call_loop i iterations func s = (func ^^ (unat iterations - unat i)) s"
proof (induction i iterations func s rule: call_loop.induct)
  case (1 i iterations func s)
  show ?case
  proof (cases "i < iterations")
    case True
    then have "unat iterations - unat i = Suc (unat iterations - unat (i + 1))"
      by unat_arith
    then show ?thesis
      using 1[OF True] True call_loop.simps[of i iterations func s]
      by (simp add: funpow_swap1)
  next
    case False
    then have "unat iterations - unat i = 0" by unat_arith
    then show ?thesis using False call_loop.simps[of i iterations func s] by simp
  qed
qed

lemma call_loop_zero: "call_loop 0 0 func s = s"
  by (simp add: call_loop_funpow)

lemma bench_n_unfold:
  "bench_n clk iterations func w =
     (let s = call_loop 0 iterations func
               ((this w)\<lparr>iterations_f := iterations, duration_f := 0\<rparr>, env w)
      in \<lparr>this = (fst s)\<lparr>duration_f := clk (Suc (reads w)) - clk (reads w)\<rparr>,
          env = snd s, reads = Suc (Suc (reads w))\<rparr>)"
  by (simp add: bench_n_def now_def Let_def split: prod.split)

lemma double_to_uint64_defined:
  assumes "- 1 < x" and "x < 2 ^ 64"
  shows "\<exists>m. double_to_uint64 x = Some m \<and> unat m = nat \<lfloor>x\<rfloor>"
proof (cases "0 \<le> x")
  case True
  then have "0 \<le> \<lfloor>x\<rfloor>" by simp
  moreover have "\<lfloor>x\<rfloor> < 2 ^ 64" using assms(2) by (simp add: floor_less_iff)
  ultimately have "unat (word_of_int \<lfloor>x\<rfloor> :: 64 word) = nat \<lfloor>x\<rfloor>"
    by (simp add: unat_eq_nat_uint uint_word_of_int take_bit_int_eq_self)
  then show ?thesis using assms True by (simp add: double_to_uint64_def)
next
  case False
  then have c: "\<lceil>x\<rceil> = 0" using assms(1) by (simp add: ceiling_eq_iff)
  have "\<lfloor>x\<rfloor> < 0" using False by (simp add: floor_less_iff)
  then have "nat \<lfloor>x\<rfloor> = 0" by simp
  then show ?thesis using assms False c by (simp add: double_to_uint64_def)
qed

lemma unat_max: "unat (max a b) = max (unat a) (unat b)" for a b :: "'a::len word"
  by (simp add: max_def word_le_nat_alt)

text \<open>
  C4, as amended. The last three statements of \<open>benchmark\<close> compute
  \<open>ns_iter = max(median, 1)\<close>, \<open>iter_s = 1000000000 / ns_iter\<close> and
  \<open>mb_s = (bytes * iter_s) / 1000000\<close>, all three in \<^verbatim>\<open>uint64_t\<close>: the median loses its
  fraction, the divisions are integer divisions and the product is taken modulo
  \<open>2 ^ 64\<close>, for every median the conversion is defined on
  (\<open>- 1 < median < 2 ^ 64\<close>). For a median of 1000 and a byte count of 2000 the result
  is exactly 2000.
\<close>

theorem benchmark_throughput:
  assumes "- 1 < median summ" and "median summ < 2 ^ 64"
  shows "(\<exists>m ns_iter iter_s.
        double_to_uint64 (median summ) = Some m
      \<and> unat m = nat \<lfloor>median summ\<rfloor>
      \<and> ns_iter = max m 1
      \<and> iter_s = 1000000000 div ns_iter
      \<and> benchmark_mb_s summ b = Inr ((bytes b * iter_s) div 1000000)
      \<and> unat ns_iter = max (nat \<lfloor>median summ\<rfloor>) 1
      \<and> unat iter_s = 1000000000 div unat ns_iter
      \<and> unat ((bytes b * iter_s) div 1000000)
          = (unat (bytes b) * unat iter_s) mod 2 ^ 64 div 1000000)
    \<and> benchmark_mb_s (summ\<lparr>median := 1000\<rparr>) (b\<lparr>bytes_f := 2000\<rparr>) = Inr 2000"
proof -
  obtain m where m: "double_to_uint64 (median summ) = Some m"
    and um: "unat m = nat \<lfloor>median summ\<rfloor>"
    using double_to_uint64_defined[OF assms] by blast
  define ns_iter :: "64 word" where "ns_iter = max m 1"
  define iter_s :: "64 word" where "iter_s = 1000000000 div ns_iter"
  have n: "unat ns_iter = max (nat \<lfloor>median summ\<rfloor>) 1"
    by (simp add: ns_iter_def unat_max um)
  have i: "unat iter_s = 1000000000 div unat ns_iter"
    by (simp add: iter_s_def unat_div)
  have r: "benchmark_mb_s summ b = Inr ((bytes b * iter_s) div 1000000)"
    by (simp add: benchmark_mb_s_def m Let_def iter_s_def ns_iter_def)
  have "unat (bytes b * iter_s) = (unat (bytes b) * unat iter_s) mod 2 ^ 64"
    by (simp add: unat_word_ariths)
  then have u: "unat ((bytes b * iter_s) div 1000000)
      = (unat (bytes b) * unat iter_s) mod 2 ^ 64 div 1000000"
    by (simp add: unat_div)
  have c: "benchmark_mb_s (summ\<lparr>median := 1000\<rparr>) (b\<lparr>bytes_f := 2000\<rparr>) = Inr 2000"
    by (simp add: benchmark_mb_s_def double_to_uint64_def bytes_def Let_def)
  from m um ns_iter_def iter_s_def r n i u c show ?thesis by blast
qed

theorem benchmark_throughput_witness:
  "- 1 < median (Summary0\<lparr>median := 1000\<rparr>) \<and> median (Summary0\<lparr>median := 1000\<rparr>) < 2 ^ 64
   \<and> benchmark_mb_s (Summary0\<lparr>median := 1000\<rparr>) (Bencher0\<lparr>bytes_f := 2000\<rparr>) = Inr 2000"
proof -
  have h1: "- 1 < median (Summary0\<lparr>median := 1000\<rparr>)"
    and h2: "median (Summary0\<lparr>median := 1000\<rparr>) < 2 ^ 64"
    by simp_all
  from benchmark_throughput[OF h1 h2, of Bencher0] h1 h2 show ?thesis by simp
qed

text \<open>
  C4, as stated, fails: the formula of the specification is over the reals, the code
  drops the fraction of the median. With a median of 10.5 and 21 bytes the code
  computes \<open>ns_iter = 10\<close> and a throughput of 2100, the formula gives 2000.
\<close>

theorem benchmark_throughput_truncates:
  "benchmark_mb_s (Summary0\<lparr>median := 21 / 2\<rparr>) (Bencher0\<lparr>bytes_f := 21\<rparr>) = Inr 2100
   \<and> spec_throughput (21 / 2) 21 = 2000"
  by (simp add: benchmark_mb_s_def double_to_uint64_def bytes_def Let_def spec_throughput_def)

text \<open>
  C7. \<open>bench_n\<close> with zero iterations does not call the callable: the result is the
  same for every callable, and what the callable can reach is unchanged; afterwards
  \<open>ns_per_iter\<close> is 0. In general \<open>ns_per_iter\<close> is the duration divided by the number
  of iterations when that number is not zero, and 0 when it is.
\<close>

theorem bench_n_zero_iterations:
  "bench_n clk 0 func w = bench_n clk 0 func2 w
   \<and> call_loop 0 0 func s = s
   \<and> env (bench_n clk 0 func w) = env w
   \<and> this (bench_n clk 0 func w)
       = (this w)\<lparr>iterations_f := 0, duration_f := clk (Suc (reads w)) - clk (reads w)\<rparr>
   \<and> ns_per_iter (this (bench_n clk 0 func w)) = 0
   \<and> ns_per_iter b
       = (if iterations_f b \<noteq> 0 then duration_f b div iterations_f b else 0)
   \<and> unat (ns_per_iter b)
       = (if iterations_f b \<noteq> 0 then unat (duration_f b) div unat (iterations_f b) else 0)"
proof -
  have "unat (ns_per_iter b)
       = (if iterations_f b \<noteq> 0 then unat (duration_f b) div unat (iterations_f b) else 0)"
    by (simp add: ns_per_iter_def unat_div)
  moreover have "ns_per_iter (this (bench_n clk 0 func w)) = 0"
    by (simp add: bench_n_unfold call_loop_zero ns_per_iter_def Let_def)
  moreover have "bench_n clk 0 func w = bench_n clk 0 func2 w"
    by (simp add: bench_n_unfold call_loop_zero)
  ultimately show ?thesis
    by (simp add: bench_n_unfold call_loop_zero ns_per_iter_def Let_def)
qed

theorem bench_n_zero_iterations_witness:
  "env (bench_n (\<lambda>k. 1000 * of_nat k) 0 (\<lambda>(b, u). (b, Suc u))
          \<lparr>this = Bencher0, env = 0, reads = 0\<rparr>) = (0 :: nat)
   \<and> ns_per_iter \<lparr>iterations_f = 4, duration_f = 1000, bytes_f = 0\<rparr> = 250
   \<and> ns_per_iter \<lparr>iterations_f = 0, duration_f = 1000, bytes_f = 0\<rparr> = 0"
  using bench_n_zero_iterations[of "\<lambda>k. 1000 * of_nat k" "\<lambda>(b, u). (b, Suc u)"
      "\<lparr>this = Bencher0, env = 0 :: nat, reads = 0\<rparr>" "\<lambda>(b, u). (b, Suc u)"
      "(Bencher0, 0 :: nat)" "\<lparr>iterations_f = 4, duration_f = 1000, bytes_f = 0\<rparr>"]
    bench_n_zero_iterations[of "\<lambda>k. 1000 * of_nat k" "\<lambda>(b, u). (b, Suc u)"
      "\<lparr>this = Bencher0, env = 0 :: nat, reads = 0\<rparr>" "\<lambda>(b, u). (b, Suc u)"
      "(Bencher0, 0 :: nat)" "\<lparr>iterations_f = 0, duration_f = 1000, bytes_f = 0\<rparr>"]
  by simp

text \<open>
  C1, as amended. An iteration of the loop of \<open>auto_bench\<close> returns through the
  convergence test exactly when the wall time of the iteration exceeds 100 ms, and
  \<open>summ.median_abs_dev_pct < 1.0\<close>, and the signed difference
  \<open>summ.median - summ5.median\<close> is less than \<open>summ5.median_abs_dev\<close>; the value
  returned is \<open>summ5\<close>.
\<close>

theorem convergence_test_signed:
  "(loop_exit loop_run total_run summ summ5 = ReturnConverged s)
     = (s = summ5
        \<and> 100 * 1000000 < sint loop_run
        \<and> quotient_less (median_abs_dev_pct summ) 1
        \<and> median summ - median summ5 < median_abs_dev summ5)"
  by (auto simp: loop_exit_def converged_def Let_def)

text \<open>
  C1, as stated, fails: with medians 10 and 20 the difference is \<open>- 10\<close>, which is less
  than the deviation 1, so the test succeeds, while the absolute difference 10 is not.
  The same happens with the summaries of fifty samples of 10 and of fifty samples of 20,
  whose deviation is 0.
\<close>

theorem convergence_test_not_absolute:
  "loop_exit 200000000 0
      \<lparr>max_v = 10, min_v = 10, median = 10, median_abs_dev = 0,
         median_abs_dev_pct = Finite 0\<rparr>
      \<lparr>max_v = 21, min_v = 19, median = 20, median_abs_dev = 1,
         median_abs_dev_pct = Finite 5\<rparr>
     = ReturnConverged
      \<lparr>max_v = 21, min_v = 19, median = 20, median_abs_dev = 1,
         median_abs_dev_pct = Finite 5\<rparr>
   \<and> \<not> \<bar>(10 :: real) - 20\<bar> < 1
   \<and> winsorize (replicate 50 10) 5 = Inr (replicate 50 10)
   \<and> Summary (replicate 50 10) =
       Inr \<lparr>max_v = 10, min_v = 10, median = 10, median_abs_dev = 0,
            median_abs_dev_pct = Finite 0\<rparr>
   \<and> winsorize (replicate 50 20) 5 = Inr (replicate 50 20)
   \<and> Summary (replicate 50 20) =
       Inr \<lparr>max_v = 20, min_v = 20, median = 20, median_abs_dev = 0,
            median_abs_dev_pct = Finite 0\<rparr>
   \<and> loop_exit 200000000 0
      \<lparr>max_v = 10, min_v = 10, median = 10, median_abs_dev = 0,
         median_abs_dev_pct = Finite 0\<rparr>
      \<lparr>max_v = 20, min_v = 20, median = 20, median_abs_dev = 0,
         median_abs_dev_pct = Finite 0\<rparr>
     = ReturnConverged
      \<lparr>max_v = 20, min_v = 20, median = 20, median_abs_dev = 0,
         median_abs_dev_pct = Finite 0\<rparr>
   \<and> \<not> \<bar>(10 :: real) - 20\<bar> < 0"
proof -
  have w10: "winsorize (replicate 50 10) 5 = Inr (replicate 50 10)"
    by (rule winsorize_const[of _ 10]) simp_all
  have w20: "winsorize (replicate 50 20) 5 = Inr (replicate 50 20)"
    by (rule winsorize_const[of _ 20]) simp_all
  have s10: "Summary (replicate 50 10) =
       Inr \<lparr>max_v = 10, min_v = 10, median = 10, median_abs_dev = 0,
            median_abs_dev_pct = Finite 0\<rparr>"
    using Summary_const_value[of "replicate 50 10" 10] by simp
  have s20: "Summary (replicate 50 20) =
       Inr \<lparr>max_v = 20, min_v = 20, median = 20, median_abs_dev = 0,
            median_abs_dev_pct = Finite 0\<rparr>"
    using Summary_const_value[of "replicate 50 20" 20] by simp
  show ?thesis
    unfolding w10 w20 s10 s20 by (simp add: loop_exit_def converged_def)
qed

text \<open>
  C8. \<open>total_run\<close> starts from a value the program does not set. Started at
  \<open>- 10 s\<close>, an iteration that takes 4 s and does not converge leaves it at \<open>- 6 s\<close>:
  the test against 3 s fails and the loop goes on, although the loop has run for more
  than 3 s. The same holds with the summaries of two rounds of fifty samples of 10,
  which do not converge.
\<close>

theorem budget_escape_missed:
  "3000000000 < sint (4000000000 :: 64 word)
   \<and> loop_exit 4000000000 (- 10000000000)
      \<lparr>max_v = 10, min_v = 10, median = 10, median_abs_dev = 1,
         median_abs_dev_pct = Finite 10\<rparr>
      \<lparr>max_v = 10, min_v = 10, median = 10, median_abs_dev = 1,
         median_abs_dev_pct = Finite 10\<rparr>
     = Next (- 6000000000)
   \<and> winsorize (replicate 50 10) 5 = Inr (replicate 50 10)
   \<and> Summary (replicate 50 10) =
       Inr \<lparr>max_v = 10, min_v = 10, median = 10, median_abs_dev = 0,
            median_abs_dev_pct = Finite 0\<rparr>
   \<and> loop_exit 4000000000 (- 10000000000)
      \<lparr>max_v = 10, min_v = 10, median = 10, median_abs_dev = 0,
         median_abs_dev_pct = Finite 0\<rparr>
      \<lparr>max_v = 10, min_v = 10, median = 10, median_abs_dev = 0,
         median_abs_dev_pct = Finite 0\<rparr>
     = Next (- 6000000000)"
proof -
  have w10: "winsorize (replicate 50 10) 5 = Inr (replicate 50 10)"
    by (rule winsorize_const[of _ 10]) simp_all
  have s10: "Summary (replicate 50 10) =
       Inr \<lparr>max_v = 10, min_v = 10, median = 10, median_abs_dev = 0,
            median_abs_dev_pct = Finite 0\<rparr>"
    using Summary_const_value[of "replicate 50 10" 10] by simp
  show ?thesis
    unfolding w10 s10 by (simp add: loop_exit_def converged_def)
qed

section \<open>The byte count across batches\<close>

lemma funpow_keeps_bytes:
  fixes func :: "'u callable"
  assumes "\<forall>s. bytes_f (fst (func s)) = bytes_f (fst s)"
  shows "bytes_f (fst ((func ^^ k) s)) = bytes_f (fst s)"
proof (induction k)
  case 0
  show ?case by simp
next
  case (Suc k)
  have "bytes_f (fst (func ((func ^^ k) s))) = bytes_f (fst ((func ^^ k) s))"
    using assms by blast
  with Suc show ?case by simp
qed

lemma bench_n_reset:
  "bench_n clk n func (w\<lparr>this := (this w)\<lparr>iterations_f := i, duration_f := d\<rparr>\<rparr>)
     = bench_n clk n func w"
  by (simp add: bench_n_unfold)

lemma bench_n_bytes:
  "bytes_f (this (bench_n clk n func w))
     = bytes_f (fst ((func ^^ unat n)
         ((this w)\<lparr>iterations_f := n, duration_f := 0\<rparr>, env w)))"
  by (simp add: bench_n_unfold call_loop_funpow Let_def)

lemma bench_n_keeps_bytes:
  assumes "\<forall>s. bytes_f (fst (func s)) = bytes_f (fst s)"
  shows "bytes_f (this (bench_n clk n func w)) = bytes_f (this w)"
  by (simp add: bench_n_bytes funpow_keeps_bytes[OF assms])

lemma fill_samples_keeps_bytes:
  assumes "\<forall>s. bytes_f (fst (func s)) = bytes_f (fst s)"
  shows "bytes_f (this (snd (fill_samples clk n func samples w))) = bytes_f (this w)"
proof (induction samples arbitrary: w)
  case Nil
  show ?case by simp
next
  case (Cons p ps)
  show ?case
    using Cons[of "bench_n clk n func w"] bench_n_keeps_bytes[OF assms, of clk n w]
    by (simp add: Let_def case_prod_beta)
qed

lemma now_this: "this (snd (now clk w)) = this w"
  by (simp add: now_def)

lemma auto_bench_iter_keeps_bytes:
  assumes "\<forall>s. bytes_f (fst (func s)) = bytes_f (fst s)"
  shows "bytes_f (this (snd (auto_bench_iter clk func n total_run samples w)))
     = bytes_f (this w)"
proof -
  note fs = fill_samples_keeps_bytes[OF assms]
  obtain loop_start w1 where n1: "now clk w = (loop_start, w1)" by (cases "now clk w")
  obtain samples1 w2 where f1: "fill_samples clk n func samples w1 = (samples1, w2)"
    by (cases "fill_samples clk n func samples w1")
  have b1: "bytes_f (this w1) = bytes_f (this w)" using now_this[of clk w] n1 by simp
  have b2: "bytes_f (this w2) = bytes_f (this w)" using fs[of clk n samples w1] f1 b1 by simp
  show ?thesis
  proof (cases "winsorize samples1 5")
    case (Inl e)
    then show ?thesis by (simp add: auto_bench_iter_def n1 f1 b2)
  next
    case ws: (Inr samples2)
    show ?thesis
    proof (cases "Summary samples2")
      case (Inl e)
      then show ?thesis by (simp add: auto_bench_iter_def n1 f1 ws b2)
    next
      case su: (Inr summ)
      obtain samples3 w3 where f2: "fill_samples clk (n * 5) func samples2 w2 = (samples3, w3)"
        by (cases "fill_samples clk (n * 5) func samples2 w2")
      have b3: "bytes_f (this w3) = bytes_f (this w)"
        using fs[of clk "n * 5" samples2 w2] f2 b2 by simp
      show ?thesis
      proof (cases "winsorize samples3 5")
        case (Inl e)
        then show ?thesis by (simp add: auto_bench_iter_def n1 f1 ws su f2 b3)
      next
        case ws5: (Inr samples4)
        show ?thesis
        proof (cases "Summary samples4")
          case (Inl e)
          then show ?thesis by (simp add: auto_bench_iter_def n1 f1 ws su f2 ws5 b3)
        next
          case su5: (Inr summ5)
          obtain t w4 where n2: "now clk w3 = (t, w4)" by (cases "now clk w3")
          have b4: "bytes_f (this w4) = bytes_f (this w)"
            using now_this[of clk w3] n2 b3 by simp
          show ?thesis
            by (simp add: auto_bench_iter_def n1 f1 ws su f2 ws5 su5 n2 b4 Let_def)
        qed
      qed
    qed
  qed
qed

lemma auto_bench_loop_keeps_bytes_aux:
  assumes run: "auto_bench_loop clk func n total_run samples w = Some y"
  shows "(\<forall>s. bytes_f (fst (func s)) = bytes_f (fst s)) \<longrightarrow>
     bytes_f (this (snd y)) = bytes_f (this w)"
proof (rule auto_bench_loop.raw_induct[where
      P = "\<lambda>clk func n total_run samples w y.
        (\<forall>s. bytes_f (fst (func s)) = bytes_f (fst s)) \<longrightarrow>
        bytes_f (this (snd y)) = bytes_f (this w)", OF _ run])
  fix loop :: "clock \<Rightarrow> 'a callable \<Rightarrow> 64 word \<Rightarrow> 64 word \<Rightarrow> real list \<Rightarrow> 'a world
      \<Rightarrow> ((error + summary) \<times> 'a world) option"
    and clk func n total_run samples w y
  assume IH: "\<And>clk func n total_run samples w y.
      loop clk func n total_run samples w = Some y \<Longrightarrow>
      (\<forall>s. bytes_f (fst (func s)) = bytes_f (fst s)) \<longrightarrow>
      bytes_f (this (snd y)) = bytes_f (this w)"
    and body: "(case auto_bench_iter clk func n total_run samples w of
        (Inl e, w1) \<Rightarrow> Some (Inl e, w1)
      | (Inr (ReturnConverged s, samples1), w1) \<Rightarrow> Some (Inr s, w1)
      | (Inr (ReturnBudget s, samples1), w1) \<Rightarrow> Some (Inr s, w1)
      | (Inr (Next total_run1, samples1), w1) \<Rightarrow>
          loop clk func (n * 2) total_run1 samples1 w1) = Some y"
  show "(\<forall>s. bytes_f (fst (func s)) = bytes_f (fst s)) \<longrightarrow>
      bytes_f (this (snd y)) = bytes_f (this w)"
  proof (intro impI)
    assume keeps: "\<forall>s. bytes_f (fst (func s)) = bytes_f (fst s)"
    note it = auto_bench_iter_keeps_bytes[OF keeps, of clk n total_run samples w]
    obtain r w1 where r: "auto_bench_iter clk func n total_run samples w = (r, w1)"
      by (cases "auto_bench_iter clk func n total_run samples w")
    have b1: "bytes_f (this w1) = bytes_f (this w)" using it r by simp
    show "bytes_f (this (snd y)) = bytes_f (this w)"
    proof (cases r)
      case (Inl e)
      then show ?thesis using body r b1 by auto
    next
      case (Inr p)
      obtain out samples1 where p: "p = (out, samples1)" by (cases p)
      show ?thesis
      proof (cases out)
        case (ReturnConverged s)
        then show ?thesis using body r Inr p b1 by auto
      next
        case (ReturnBudget s)
        then show ?thesis using body r Inr p b1 by auto
      next
        case (Next total_run1)
        then have "loop clk func (n * 2) total_run1 samples1 w1 = Some y"
          using body r Inr p by simp
        from IH[OF this] keeps b1 show ?thesis by simp
      qed
    qed
  qed
qed

lemma auto_bench_loop_keeps_bytes:
  assumes run: "auto_bench_loop clk func n total_run samples w = Some y"
    and keeps: "\<forall>s. bytes_f (fst (func s)) = bytes_f (fst s)"
  shows "bytes_f (this (snd y)) = bytes_f (this w)"
  using auto_bench_loop_keeps_bytes_aux[OF run] keeps by blast

lemma auto_bench_keeps_bytes:
  assumes run: "auto_bench clk total_run0 func w = Some y"
    and keeps: "\<forall>s. bytes_f (fst (func s)) = bytes_f (fst s)"
  shows "bytes_f (this (snd y)) = bytes_f (this w)"
proof -
  from run obtain n1 where
    "auto_bench_loop clk func n1 total_run0 (replicate 50 0) (bench_n clk 1 func w) = Some y"
    by (simp add: auto_bench_def Let_def)
  from auto_bench_loop_keeps_bytes[OF this keeps] bench_n_keeps_bytes[OF keeps, of clk 1 w]
  show ?thesis by simp
qed

lemma benchmark_reads_final:
  assumes "benchmark clk total_run0 func u = Some (Inr bs, u')"
  shows "\<exists>summ w1. auto_bench clk total_run0 func \<lparr>this = Bencher0, env = u, reads = 0\<rparr>
             = Some (Inr summ, w1)
      \<and> ns_iter_summ bs = summ \<and> u' = env w1
      \<and> benchmark_mb_s summ (this w1) = Inr (mb_s bs)"
  using assms
  by (auto simp: benchmark_def split: option.splits sum.splits prod.splits)

lemma benchmark_mb_s_no_bytes:
  assumes "benchmark_mb_s summ b = Inr m" and "bytes_f b = 0"
  shows "m = 0"
  using assms by (auto simp: benchmark_mb_s_def bytes_def Let_def split: option.splits)

lemma funpow_ident: "((\<lambda>s. s) ^^ k) s = s"
  by (induction k) simp_all

lemma bench_n_ident:
  "bench_n clk n (\<lambda>s. s) w =
     \<lparr>this = (this w)\<lparr>iterations_f := n,
                      duration_f := clk (Suc (reads w)) - clk (reads w)\<rparr>,
      env = env w, reads = Suc (Suc (reads w))\<rparr>"
  by (simp add: bench_n_unfold call_loop_funpow funpow_ident)

lemma fill_samples_steady:
  assumes step: "\<And>k. clk (Suc k) - clk k = c"
  shows "fill_samples clk n (\<lambda>s. s) samples w =
     (replicate (length samples) (real_of_int (sint (if n \<noteq> 0 then c div n else 0))),
      if samples = [] then w
      else \<lparr>this = (this w)\<lparr>iterations_f := n, duration_f := c\<rparr>,
            env = env w, reads = reads w + 2 * length samples\<rparr>)"
proof (induction samples arbitrary: w)
  case Nil
  show ?case by simp
next
  case (Cons p ps)
  define w1 where "w1 = bench_n clk n (\<lambda>s. s) w"
  have w1: "w1 = \<lparr>this = (this w)\<lparr>iterations_f := n, duration_f := c\<rparr>,
      env = env w, reads = Suc (Suc (reads w))\<rparr>"
    by (simp add: w1_def bench_n_ident step)
  have v: "ns_per_iter (this w1) = (if n \<noteq> 0 then c div n else 0)"
    by (simp add: w1 ns_per_iter_def)
  show ?case
    using Cons[of w1] v
    by (simp add: Let_def w1_def[symmetric]) (simp add: w1)
qed

lemma steady_iter:
  fixes w :: "'u world"
  assumes step: "\<And>k. clk (Suc k) - clk k = 20000000"
    and span: "clk (reads w + 201) - clk (reads w) = 4020000000"
    and len: "length samples = 50"
  shows "auto_bench_iter clk (\<lambda>s. s) 1 0 samples w =
     (Inr (ReturnBudget
             \<lparr>max_v = 4000000, min_v = 4000000, median = 4000000, median_abs_dev = 0,
                median_abs_dev_pct = Finite 0\<rparr>,
           replicate 50 4000000),
      \<lparr>this = (this w)\<lparr>iterations_f := 5, duration_f := 20000000\<rparr>,
         env = env w, reads = reads w + 202\<rparr>)"
proof -
  define w1 where "w1 = w\<lparr>reads := Suc (reads w)\<rparr>"
  define w2 where "w2 = \<lparr>this = (this w)\<lparr>iterations_f := 1, duration_f := 20000000\<rparr>,
      env = env w, reads = reads w + 101\<rparr>"
  define w3 where "w3 = \<lparr>this = (this w)\<lparr>iterations_f := 5, duration_f := 20000000\<rparr>,
      env = env w, reads = reads w + 201\<rparr>"
  define S1 where "S1 = \<lparr>max_v = 20000000, min_v = 20000000, median = 20000000,
      median_abs_dev = 0, median_abs_dev_pct = Finite 0\<rparr>"
  define S5 where "S5 = \<lparr>max_v = 4000000, min_v = 4000000, median = 4000000,
      median_abs_dev = 0, median_abs_dev_pct = Finite 0\<rparr>"
  have ne: "samples \<noteq> []" using len by auto
  have n1: "now clk w = (clk (reads w), w1)" by (simp add: now_def w1_def)
  have v1: "real_of_int (sint (if (1 :: 64 word) \<noteq> 0 then (20000000 :: 64 word) div 1 else 0)) = 20000000"
    by simp
  have v5: "real_of_int (sint (if (5 :: 64 word) \<noteq> 0 then (20000000 :: 64 word) div 5 else 0)) = 4000000"
    by simp
  have f1: "fill_samples clk 1 (\<lambda>s. s) samples w1 = (replicate 50 20000000, w2)"
    unfolding fill_samples_steady[where clk = clk and c = 20000000, OF step] v1 len
    using ne by (simp add: w1_def w2_def)
  have c1: "replicate 50 (20000000 :: real) \<noteq> []"
    and a1: "\<forall>x \<in> set (replicate 50 (20000000 :: real)). x = 20000000"
    and c5: "replicate 50 (4000000 :: real) \<noteq> []"
    and a5: "\<forall>x \<in> set (replicate 50 (4000000 :: real)). x = 4000000"
    by simp_all
  have p0: "(0 :: real) \<le> 5" and p100: "(5 :: real) \<le> 100" by simp_all
  have ws1: "winsorize (replicate 50 20000000) 5 = Inr (replicate 50 20000000)"
    by (rule winsorize_const[OF c1 a1 p0 p100])
  have su1: "Summary (replicate 50 20000000) = Inr S1"
    using Summary_const_value[OF c1 a1] by (simp add: S1_def)
  have f2: "fill_samples clk 5 (\<lambda>s. s) (replicate 50 20000000) w2
      = (replicate 50 4000000, w3)"
    unfolding fill_samples_steady[where clk = clk and c = 20000000, OF step] v5
    by (simp add: w2_def w3_def)
  have ws5: "winsorize (replicate 50 4000000) 5 = Inr (replicate 50 4000000)"
    by (rule winsorize_const[OF c5 a5 p0 p100])
  have su5: "Summary (replicate 50 4000000) = Inr S5"
    using Summary_const_value[OF c5 a5] by (simp add: S5_def)
  have n2: "now clk w3 = (clk (reads w + 201), w3\<lparr>reads := reads w + 202\<rparr>)"
    by (simp add: now_def w3_def)
  have le: "loop_exit 4020000000 0 S1 S5 = ReturnBudget S5"
    by (simp add: loop_exit_def converged_def S1_def S5_def)
  have m: "(1 :: 64 word) * 5 = 5" by simp
  have "auto_bench_iter clk (\<lambda>s. s) 1 0 samples w
      = (Inr (ReturnBudget S5, replicate 50 4000000), w3\<lparr>reads := reads w + 202\<rparr>)"
    unfolding auto_bench_iter_def n1 prod.case Let_def f1 ws1 sum.case su1 m f2 ws5 su5 n2
      span le ..
  then show ?thesis by (simp add: w3_def S5_def)
qed

lemma steady_auto_bench:
  "auto_bench (\<lambda>k. of_nat k * 20000000) 0 (\<lambda>s. s) \<lparr>this = Bencher0, env = u, reads = 0\<rparr>
     = Some (Inr \<lparr>max_v = 4000000, min_v = 4000000, median = 4000000, median_abs_dev = 0,
                   median_abs_dev_pct = Finite 0\<rparr>,
             \<lparr>this = \<lparr>iterations_f = 5, duration_f = 20000000, bytes_f = 0\<rparr>,
                env = u, reads = 204\<rparr>)"
proof -
  define clk :: clock where "clk = (\<lambda>k. of_nat k * 20000000)"
  define w1 :: "'a world" where
    "w1 = \<lparr>this = \<lparr>iterations_f = 1, duration_f = 20000000, bytes_f = 0\<rparr>,
            env = u, reads = 2\<rparr>"
  have step: "\<And>k. clk (Suc k) - clk k = 20000000"
    by (simp add: clk_def algebra_simps)
  have span: "clk (reads w1 + 201) - clk (reads w1) = 4020000000"
    by (simp add: clk_def w1_def)
  have len: "length (replicate 50 (0 :: real)) = 50" by simp
  have b1: "bench_n clk 1 (\<lambda>s. s) \<lparr>this = Bencher0, env = u, reads = 0\<rparr> = w1"
    by (simp add: bench_n_ident step w1_def Bencher0_def numeral_2_eq_2)
  have ns: "ns_per_iter (this w1) = 20000000"
    by (simp add: w1_def ns_per_iter_def)
  have n: "(if (20000000 :: 64 word) = 0 then 1000000
            else 1000000 div max 20000000 1) = (0 :: 64 word)"
    by simp
  have it: "auto_bench_iter clk (\<lambda>s. s) 1 0 (replicate 50 0) w1 =
     (Inr (ReturnBudget
             \<lparr>max_v = 4000000, min_v = 4000000, median = 4000000, median_abs_dev = 0,
                median_abs_dev_pct = Finite 0\<rparr>,
           replicate 50 4000000),
      \<lparr>this = (this w1)\<lparr>iterations_f := 5, duration_f := 20000000\<rparr>,
         env = env w1, reads = reads w1 + 202\<rparr>)"
    by (rule steady_iter[OF step span len])
  have loop: "auto_bench_loop clk (\<lambda>s. s) 1 0 (replicate 50 0) w1
     = Some (Inr \<lparr>max_v = 4000000, min_v = 4000000, median = 4000000, median_abs_dev = 0,
                   median_abs_dev_pct = Finite 0\<rparr>,
             \<lparr>this = \<lparr>iterations_f = 5, duration_f = 20000000, bytes_f = 0\<rparr>,
                env = u, reads = 204\<rparr>)"
    unfolding auto_bench_loop.simps[of clk "\<lambda>s. s" 1 0 "replicate 50 0" w1] it
    by (simp add: w1_def)
  show ?thesis
    unfolding clk_def[symmetric] auto_bench_def Let_def b1 ns n
    using loop by simp
qed

lemma steady_benchmark:
  "benchmark (\<lambda>k. of_nat k * 20000000) 0 (\<lambda>s. s) u
     = Some (Inr \<lparr>ns_iter_summ =
                    \<lparr>max_v = 4000000, min_v = 4000000, median = 4000000,
                       median_abs_dev = 0, median_abs_dev_pct = Finite 0\<rparr>,
                  mb_s = 0\<rparr>, u)"
  by (simp add: benchmark_def steady_auto_bench benchmark_mb_s_def double_to_uint64_def
      bytes_def Let_def)

text \<open>
  C9. Every call of \<open>bench_n\<close> sets the iteration count and clears the duration before
  the first call of the callable, whatever the two members held before. \<open>bench_n\<close>
  itself does not write the byte count: after a batch it is what the calls of the
  callable left. A callable that does not write it leaves it unchanged through a
  batch, through a round of samples and through the whole of \<open>auto_bench\<close>, and
  \<open>benchmark\<close> reads it once, from the object as \<open>auto_bench\<close> leaves it.
\<close>

theorem bench_n_frame:
  assumes run: "benchmark clk total_run0 func u = Some (Inr bs, u1)"
  shows "bench_n clk n func (w\<lparr>this := (this w)\<lparr>iterations_f := i, duration_f := d\<rparr>\<rparr>)
        = bench_n clk n func w
    \<and> bench_n clk n func w =
        (let s = call_loop 0 n func
                   ((this w)\<lparr>iterations_f := n, duration_f := 0\<rparr>, env w)
         in \<lparr>this = (fst s)\<lparr>duration_f := clk (Suc (reads w)) - clk (reads w)\<rparr>,
             env = snd s, reads = Suc (Suc (reads w))\<rparr>)
    \<and> bytes_f (this (bench_n clk n func w))
        = bytes_f (fst ((func ^^ unat n)
            ((this w)\<lparr>iterations_f := n, duration_f := 0\<rparr>, env w)))
    \<and> ((\<forall>s. bytes_f (fst (func s)) = bytes_f (fst s)) \<longrightarrow>
          bytes_f (this (bench_n clk n func w)) = bytes_f (this w)
        \<and> bytes_f (this (snd (fill_samples clk n func samples w))) = bytes_f (this w)
        \<and> mb_s bs = 0)
    \<and> (\<exists>summ w1.
          auto_bench clk total_run0 func \<lparr>this = Bencher0, env = u, reads = 0\<rparr>
            = Some (Inr summ, w1)
        \<and> ns_iter_summ bs = summ \<and> u1 = env w1
        \<and> benchmark_mb_s summ (this w1) = Inr (mb_s bs))"
proof -
  obtain summ w1 where
    ab: "auto_bench clk total_run0 func \<lparr>this = Bencher0, env = u, reads = 0\<rparr>
            = Some (Inr summ, w1)"
    and s: "ns_iter_summ bs = summ" and e: "u1 = env w1"
    and m: "benchmark_mb_s summ (this w1) = Inr (mb_s bs)"
    using benchmark_reads_final[OF run] by blast
  have keep: "(\<forall>s. bytes_f (fst (func s)) = bytes_f (fst s)) \<longrightarrow>
          bytes_f (this (bench_n clk n func w)) = bytes_f (this w)
        \<and> bytes_f (this (snd (fill_samples clk n func samples w))) = bytes_f (this w)
        \<and> mb_s bs = 0"
  proof (intro impI conjI)
    assume k: "\<forall>s. bytes_f (fst (func s)) = bytes_f (fst s)"
    show "bytes_f (this (bench_n clk n func w)) = bytes_f (this w)"
      by (rule bench_n_keeps_bytes[OF k])
    show "bytes_f (this (snd (fill_samples clk n func samples w))) = bytes_f (this w)"
      by (rule fill_samples_keeps_bytes[OF k])
    have "bytes_f (this w1) = 0"
      using auto_bench_keeps_bytes[OF ab k] by (simp add: Bencher0_def)
    with m show "mb_s bs = 0" by (rule benchmark_mb_s_no_bytes)
  qed
  from ab s e m have last: "\<exists>summ w1.
          auto_bench clk total_run0 func \<lparr>this = Bencher0, env = u, reads = 0\<rparr>
            = Some (Inr summ, w1)
        \<and> ns_iter_summ bs = summ \<and> u1 = env w1
        \<and> benchmark_mb_s summ (this w1) = Inr (mb_s bs)"
    by blast
  from bench_n_reset[where clk = clk and n = n and func = func and w = w and i = i and d = d]
    bench_n_unfold[where clk = clk and iterations = n and func = func and w = w]
    bench_n_bytes[where clk = clk and n = n and func = func and w = w] keep last
  show ?thesis by (intro conjI)
qed

theorem bench_n_frame_witness:
  "benchmark (\<lambda>k. of_nat k * 20000000) 0 (\<lambda>s. s) ()
     = Some (Inr \<lparr>ns_iter_summ =
                    \<lparr>max_v = 4000000, min_v = 4000000, median = 4000000,
                       median_abs_dev = 0, median_abs_dev_pct = Finite 0\<rparr>,
                  mb_s = 0\<rparr>, ())
   \<and> bytes_f (this (bench_n (\<lambda>k. of_nat k * 20000000) 3 (\<lambda>s. s)
        \<lparr>this = \<lparr>iterations_f = 9, duration_f = 9, bytes_f = 7\<rparr>, env = (), reads = 0\<rparr>)) = 7
   \<and> iterations_f (this (bench_n (\<lambda>k. of_nat k * 20000000) 3 (\<lambda>s. s)
        \<lparr>this = \<lparr>iterations_f = 9, duration_f = 9, bytes_f = 7\<rparr>, env = (), reads = 0\<rparr>)) = 3"
proof -
  have h: "benchmark (\<lambda>k. of_nat k * 20000000) 0 (\<lambda>s. s) ()
     = Some (Inr \<lparr>ns_iter_summ =
                    \<lparr>max_v = 4000000, min_v = 4000000, median = 4000000,
                       median_abs_dev = 0, median_abs_dev_pct = Finite 0\<rparr>,
                  mb_s = 0\<rparr>, ())"
    by (rule steady_benchmark)
  have k: "\<forall>s :: bencher \<times> unit. bytes_f (fst ((\<lambda>s. s) s)) = bytes_f (fst s)"
    by simp
  note t = bench_n_frame[OF h, where n = 3 and i = 9 and d = 9 and samples = "[]" and
      w = "\<lparr>this = \<lparr>iterations_f = 9, duration_f = 9, bytes_f = 7\<rparr>, env = (), reads = 0\<rparr>"]
  note t4 = t[THEN conjunct2, THEN conjunct2, THEN conjunct2, THEN conjunct1, THEN mp,
      OF k, THEN conjunct1]
  from t4 have "bytes_f (this (bench_n (\<lambda>k. of_nat k * 20000000) 3 (\<lambda>s. s)
        \<lparr>this = \<lparr>iterations_f = 9, duration_f = 9, bytes_f = 7\<rparr>, env = (), reads = 0\<rparr>)) = 7"
    by simp
  moreover have "iterations_f (this (bench_n (\<lambda>k. of_nat k * 20000000) 3 (\<lambda>s. s)
        \<lparr>this = \<lparr>iterations_f = 9, duration_f = 9, bytes_f = 7\<rparr>, env = (), reads = 0\<rparr>)) = 3"
    by (simp add: bench_n_ident)
  ultimately show ?thesis using h by (intro conjI)
qed

end
